theory Spec2Isabelle
  imports Main "HOL-Library.Sublist"
begin

section \<open>JavaScript strings\<close>

text \<open>
  A JavaScript string is a sequence of UTF-16 code units. A code unit is modelled as a
  natural number, so that the characters the regular expressions of
  \<^verbatim>\<open>build/generate-exports.mjs\<close> distinguish beyond ASCII (the Unicode white space
  of \<^verbatim>\<open>\s\<close>, the line terminators U+2028 and U+2029) are part of the model.
  \<open>js\<close> turns an ASCII literal into its code units.
\<close>

type_synonym jsstring = "nat list"

definition js :: "string \<Rightarrow> jsstring" where
  "js s = map of_char s"

text \<open>\<^verbatim>\<open>String.prototype.includes\<close>: the argument occurs somewhere as a substring.\<close>

fun js_includes :: "jsstring \<Rightarrow> jsstring \<Rightarrow> bool" where
  "js_includes [] sub = (sub = [])"
| "js_includes (c # cs) sub = (prefix sub (c # cs) \<or> js_includes cs sub)"

text \<open>\<^verbatim>\<open>Array.prototype.join\<close> on an array of strings.\<close>

fun js_join :: "jsstring \<Rightarrow> jsstring list \<Rightarrow> jsstring" where
  "js_join sep [] = []"
| "js_join sep [x] = x"
| "js_join sep (x # y # ys) = x @ sep @ js_join sep (y # ys)"

section \<open>Configuration tables\<close>

definition manualCFunctions :: "jsstring list" where
  "manualCFunctions =
     [js ''malloc'', js ''free'', js ''main'',
      js ''getenv'', js ''setenv'', js ''unsetenv'',
      js ''qpdf_init_write_stream'', js ''qpdf_write_begin'',
      js ''qpdf_write_continue'', js ''qpdf_get_write_progress'']"

definition runtimeMethods :: "jsstring list" where
  "runtimeMethods =
     [js ''ccall'', js ''cwrap'', js ''setValue'', js ''getValue'',
      js ''addFunction'', js ''removeFunction'', js ''stringToUTF8'',
      js ''UTF8ToString'', js ''lengthBytesUTF8'', js ''FS'', js ''NODEFS'',
      js ''WORKERFS'', js ''ENV'', js ''callMain'']"

definition incomingMethods :: "jsstring list" where
  "incomingMethods =
     [js ''noInitialRun'', js ''noFSInit'', js ''locateFile'', js ''preRun'']"

section \<open>Assembling the export list\<close>

text \<open>
  The filter of the discovered names: a name is kept when it does not contain
  \<^verbatim>\<open>_reserved\<close> and is not one of the two helpers with C++ linkage, the array
  literal \<open>excludedNames\<close>.
\<close>

definition excludedNames :: "jsstring list" where
  "excludedNames = [js ''qpdf_c_wrap'', js ''qpdf_c_get_qpdf'']"

definition keepFunction :: "jsstring \<Rightarrow> bool" where
  "keepFunction f \<longleftrightarrow>
     \<not> js_includes f (js ''_reserved'') \<and> \<not> List.member excludedNames f"

definition exportedFunctions :: "jsstring list \<Rightarrow> jsstring list" where
  "exportedFunctions foundFunctions = manualCFunctions @ filter keepFunction foundFunctions"

section \<open>Regular expressions\<close>

text \<open>
  The three regular expressions of the script are sequences of literals, quantified
  character classes, one capture group and one end-of-line assertion. \<open>matchhere\<close> is
  the backtracking matcher of ECMAScript restricted to such sequences: it matches the
  atoms at the start of the text and returns the capture and the text after the match.
  A greedy quantifier tries the longest run of its class first and gives characters back
  one at a time; a lazy one tries the shortest run first.
\<close>

text \<open>\<^verbatim>\<open>\s\<close>: the white space and line terminator code units of ECMAScript.\<close>

definition is_space :: "nat \<Rightarrow> bool" where
  "is_space c \<longleftrightarrow>
     c = 9 \<or> c = 10 \<or> c = 11 \<or> c = 12 \<or> c = 13 \<or> c = 32 \<or> c = 160 \<or>
     c = 5760 \<or> (8192 \<le> c \<and> c \<le> 8202) \<or> c = 8232 \<or> c = 8233 \<or>
     c = 8239 \<or> c = 8287 \<or> c = 12288 \<or> c = 65279"

text \<open>\<^verbatim>\<open>\w\<close>: ASCII letters, digits and the underscore.\<close>

definition is_word :: "nat \<Rightarrow> bool" where
  "is_word c \<longleftrightarrow>
     (48 \<le> c \<and> c \<le> 57) \<or> (65 \<le> c \<and> c \<le> 90) \<or> c = 95 \<or> (97 \<le> c \<and> c \<le> 122)"

text \<open>The line terminators: LF, CR, U+2028 and U+2029. The dot matches anything else.\<close>

definition is_line_terminator :: "nat \<Rightarrow> bool" where
  "is_line_terminator c \<longleftrightarrow> c = 10 \<or> c = 13 \<or> c = 8232 \<or> c = 8233"

definition is_dot :: "nat \<Rightarrow> bool" where
  "is_dot c \<longleftrightarrow> \<not> is_line_terminator c"

text \<open>\<^verbatim>\<open>[\s\S]\<close>: every code unit.\<close>

definition is_any :: "nat \<Rightarrow> bool" where
  "is_any c \<longleftrightarrow> is_space c \<or> \<not> is_space c"

text \<open>\<^verbatim>\<open>[\w\s\*]\<close>: a word character, white space or the asterisk.\<close>

definition is_type_char :: "nat \<Rightarrow> bool" where
  "is_type_char c \<longleftrightarrow> is_word c \<or> is_space c \<or> c = 42"

datatype atom =
    Lit jsstring
  | Greedy "nat \<Rightarrow> bool" nat
  | Lazy "nat \<Rightarrow> bool" nat
  | Eol
  | GroupStart
  | GroupEnd

text \<open>
  \<open>splits p s\<close> lists what is left of \<open>s\<close> after a run of 0, 1, 2, ... characters of
  the class \<open>p\<close>, the shortest run first.
\<close>

fun splits :: "(nat \<Rightarrow> bool) \<Rightarrow> jsstring \<Rightarrow> jsstring list" where
  "splits p [] = [[]]"
| "splits p (c # cs) = (c # cs) # (if p c then splits p cs else [])"

fun first_some :: "'a option list \<Rightarrow> 'a option" where
  "first_some [] = None"
| "first_some (None # xs) = first_some xs"
| "first_some (Some x # xs) = Some x"

text \<open>
  \<open>matchhere re s g c\<close>: \<open>s\<close> is the text at the current position, \<open>g\<close> the text
  at the position where the capture group was entered, \<open>c\<close> the capture so far.
\<close>

fun matchhere ::
  "atom list \<Rightarrow> jsstring \<Rightarrow> jsstring \<Rightarrow> jsstring option \<Rightarrow> (jsstring option \<times> jsstring) option"
where
  "matchhere [] s g c = Some (c, s)"
| "matchhere (Lit l # re) s g c =
     (if prefix l s then matchhere re (drop (length l) s) g c else None)"
| "matchhere (Greedy p k # re) s g c =
     first_some (map (\<lambda>r. matchhere re r g c) (rev (drop k (splits p s))))"
| "matchhere (Lazy p k # re) s g c =
     first_some (map (\<lambda>r. matchhere re r g c) (drop k (splits p s)))"
| "matchhere (Eol # re) s g c =
     (case s of [] \<Rightarrow> matchhere re s g c
      | x # _ \<Rightarrow> if is_line_terminator x then matchhere re s g c else None)"
| "matchhere (GroupStart # re) s g c = matchhere re s s c"
| "matchhere (GroupEnd # re) s g c =
     matchhere re s g (Some (take (length g - length s) g))"

text \<open>
  \<^verbatim>\<open>String.prototype.replace\<close> with a global regular expression and the replacement
  \<^verbatim>\<open>''\<close>: the leftmost match is removed and the search goes on after it; where nothing
  matches, the character is kept. After an empty match the search advances by one code
  unit.
\<close>

fun js_replace_all :: "atom list \<Rightarrow> jsstring \<Rightarrow> jsstring" where
  "js_replace_all re [] = []"
| "js_replace_all re (x # xs) =
     (case matchhere re (x # xs) (x # xs) None of
        None \<Rightarrow> x # js_replace_all re xs
      | Some (c, rest) \<Rightarrow>
          if length rest < length (x # xs) then js_replace_all re rest
          else x # js_replace_all re xs)"

text \<open>
  \<^verbatim>\<open>RegExp.prototype.exec\<close> of a global regular expression on the text from
  \<^verbatim>\<open>lastIndex\<close> on: the leftmost match at or after the current position.
\<close>

fun regex_exec :: "atom list \<Rightarrow> jsstring \<Rightarrow> (jsstring option \<times> jsstring) option" where
  "regex_exec re [] = matchhere re [] [] None"
| "regex_exec re (x # xs) =
     (case matchhere re (x # xs) (x # xs) None of
        None \<Rightarrow> regex_exec re xs
      | Some m \<Rightarrow> Some m)"

section \<open>Parsing the header\<close>

text \<open>\<^verbatim>\<open>/\/\*[\s\S]*?\*\//g\<close>\<close>

definition blockCommentRegex :: "atom list" where
  "blockCommentRegex = [Lit (js ''/*''), Lazy is_any 0, Lit (js ''*/'')]"

text \<open>\<^verbatim>\<open>/\/\/.*$/gm\<close>\<close>

definition lineCommentRegex :: "atom list" where
  "lineCommentRegex = [Lit (js ''//''), Greedy is_dot 0, Eol]"

definition contentWithoutComments :: "jsstring \<Rightarrow> jsstring" where
  "contentWithoutComments headerContent =
     js_replace_all lineCommentRegex (js_replace_all blockCommentRegex headerContent)"

text \<open>\<^verbatim>\<open>/QPDF_DLL\s+[\w\s\*]+\s+(qpdf_\w+)\s*\(/g\<close>\<close>

definition funcRegex :: "atom list" where
  "funcRegex =
     [Lit (js ''QPDF_DLL''), Greedy is_space 1, Greedy is_type_char 1, Greedy is_space 1,
      GroupStart, Lit (js ''qpdf_''), Greedy is_word 1, GroupEnd,
      Greedy is_space 0, Lit (js ''('')]"

text \<open>
  What a match of \<open>funcRegex\<close> leaves is shorter than the text it starts on: the loop
  of the script, which calls \<^verbatim>\<open>exec\<close> until it returns \<^verbatim>\<open>null\<close>, ends.
\<close>

lemma first_some_in: "first_some xs = Some r \<Longrightarrow> Some r \<in> set xs"
  by (induction xs rule: first_some.induct) auto

lemma splits_suffix: "r \<in> set (splits p s) \<Longrightarrow> suffix r s"
  by (induction s) (auto simp: suffix_Cons split: if_splits)

lemma matchhere_suffix: "matchhere re s g c = Some (c', rest) \<Longrightarrow> suffix rest s"
proof (induction re s g c arbitrary: c' rest rule: matchhere.induct)
  case (2 l re s g c)
  then have "suffix rest (drop (length l) s)"
    by (auto split: if_splits)
  then show ?case
    using suffix_drop suffix_order.trans by blast
next
  case (3 p k re s g c)
  from first_some_in [OF "3.prems" [simplified]]
  obtain r where r: "r \<in> set (drop k (splits p s))" "matchhere re r g c = Some (c', rest)"
    by auto
  from r(1) have "suffix r s"
    by (auto dest: in_set_dropD splits_suffix)
  moreover from "3.IH" [OF _ r(2)] r(1) have "suffix rest r"
    by simp
  ultimately show ?case
    using suffix_order.trans by blast
next
  case (4 p k re s g c)
  from first_some_in [OF "4.prems" [simplified]]
  obtain r where r: "r \<in> set (drop k (splits p s))" "matchhere re r g c = Some (c', rest)"
    by auto
  from r(1) have "suffix r s"
    by (auto dest: in_set_dropD splits_suffix)
  moreover from "4.IH" [OF r(1) r(2)] have "suffix rest r" .
  ultimately show ?case
    using suffix_order.trans by blast
qed (auto split: list.splits if_splits)

lemma funcRegex_consumes:
  assumes "matchhere funcRegex s g c = Some (c', rest)"
  shows "length rest < length s"
proof -
  let ?l = "js ''QPDF_DLL''"
  obtain re where re: "funcRegex = Lit ?l # re"
    by (simp add: funcRegex_def)
  from assms have p: "prefix ?l s" and m: "matchhere re (drop (length ?l) s) g c = Some (c', rest)"
    unfolding re by (auto split: if_splits)
  from matchhere_suffix [OF m] have "length rest \<le> length s - length ?l"
    by (auto dest: suffix_length_le)
  moreover from p have "length ?l \<le> length s"
    by (rule prefix_length_le)
  moreover have "0 < length ?l"
    by (simp add: js_def)
  ultimately show ?thesis by linarith
qed

lemma regex_exec_funcRegex_shorter:
  "regex_exec funcRegex s = Some (c', rest) \<Longrightarrow> length rest < length s"
proof (induction s)
  case Nil
  then show ?case by (auto dest: funcRegex_consumes)
next
  case (Cons x xs)
  then show ?case
    by (auto split: option.splits dest: funcRegex_consumes)
qed

text \<open>
  The loop \<^verbatim>\<open>while ((match = funcRegex.exec(...)) !== null) foundFunctions.push(match[1])\<close>.
  The capture group takes part in every match of \<open>funcRegex\<close>, so \<^verbatim>\<open>match[1]\<close> is
  a string.
\<close>

function foundFunctions :: "jsstring \<Rightarrow> jsstring list" where
  "foundFunctions text =
     (case regex_exec funcRegex text of
        None \<Rightarrow> []
      | Some (m, rest) \<Rightarrow> (case m of None \<Rightarrow> [] | Some f \<Rightarrow> f) # foundFunctions rest)"
  by pat_completeness auto
termination
  by (relation "measure length") (auto dest: regex_exec_funcRegex_shorter)

declare foundFunctions.simps [simp del]

section \<open>Rendering the artifacts\<close>

text \<open>The double quote.\<close>

definition dquote :: jsstring where
  "dquote = [34]"

text \<open>The line feed of the template literals.\<close>

definition newline :: jsstring where
  "newline = [10]"

text \<open>\<^verbatim>\<open>exported-functions.txt\<close>: every name with the prefix \<^verbatim>\<open>_\<close>.\<close>

definition functionsContent :: "jsstring list \<Rightarrow> jsstring" where
  "functionsContent exported =
     js ''['' @ js_join (js '','') (map (\<lambda>f. dquote @ js ''_'' @ f @ dquote) exported) @ js '']''"

text \<open>\<^verbatim>\<open>exported-runtime-methods.txt\<close>\<close>

definition runtimeContent :: jsstring where
  "runtimeContent =
     js ''['' @ js_join (js '','') (map (\<lambda>m. dquote @ m @ dquote) runtimeMethods) @ js '']''"

text \<open>\<^verbatim>\<open>exported-incoming-methods.txt\<close>\<close>

definition incomingContent :: jsstring where
  "incomingContent =
     js ''['' @ js_join (js '','') (map (\<lambda>m. dquote @ m @ dquote) incomingMethods) @ js '']''"

text \<open>\<^verbatim>\<open>runtime-methods.ts\<close>\<close>

definition tsContent :: "jsstring list \<Rightarrow> jsstring" where
  "tsContent exported =
     js ''/* AUTO-GENERATED - DO NOT EDIT BY HAND */'' @ newline @
     js ''/* Generated by build/generate-exports.mjs */'' @ newline @
     js ''/// <reference types='' @ dquote @ js ''emscripten'' @ dquote @ js '' />'' @ newline @
     newline @
     js ''export const allExportedFunctions = ['' @ newline @
     js_join (js '','' @ newline) (map (\<lambda>f. js ''  '' @ dquote @ f @ dquote) exported) @ newline @
     js ''] as const;'' @ newline @
     newline @
     js ''export const allRuntimeMethods = ['' @ newline @
     js_join (js '','' @ newline) (map (\<lambda>m. js ''  '' @ dquote @ m @ dquote) runtimeMethods) @ newline @
     js ''] as const;'' @ newline"

section \<open>The script\<close>

text \<open>
  The script runs once, top to bottom. What it does to the outside is the sequence of its
  calls to \<^verbatim>\<open>node:fs\<close> and to the console; a call returns or throws. The process ends
  with an exit status, or with an exception nobody catches.
\<close>

datatype call =
    MkdirSync jsstring
  | ReadFileSync jsstring
  | WriteFileSync jsstring jsstring
  | ConsoleLog jsstring
  | ConsoleError jsstring

datatype event = Returned call | Threw call

datatype outcome = Exit nat | Uncaught

text \<open>
  The world the script runs in: its arguments (\<^verbatim>\<open>process.argv.slice(2)\<close>), the directory
  of the script, the working directory, \<^verbatim>\<open>path.resolve\<close> (a function of \<^verbatim>\<open>node:path\<close>,
  taken as it is), and what the file system answers: whether the directory can be created,
  the text of a file read as UTF-8 (\<open>None\<close> when \<^verbatim>\<open>readFileSync\<close> throws), whether a file
  can be written.
\<close>

record world =
  args :: "jsstring list"
  selfDir :: jsstring
  cwd :: jsstring
  resolve :: "jsstring list \<Rightarrow> jsstring"
  mkdir_ok :: "jsstring \<Rightarrow> bool"
  file_text :: "jsstring \<Rightarrow> jsstring option"
  write_ok :: "jsstring \<Rightarrow> bool"

text \<open>\<^verbatim>\<open>Array.prototype.indexOf\<close>: the first index of the element, or -1.\<close>

fun js_indexOf :: "jsstring list \<Rightarrow> jsstring \<Rightarrow> int" where
  "js_indexOf [] v = -1"
| "js_indexOf (x # xs) v =
     (if x = v then 0 else (let i = js_indexOf xs v in if i = -1 then -1 else i + 1))"

text \<open>Reading an array element: \<open>None\<close> is \<^verbatim>\<open>undefined\<close>.\<close>

definition js_at :: "jsstring list \<Rightarrow> int \<Rightarrow> jsstring option" where
  "js_at xs i = (if 0 \<le> i \<and> nat i < length xs then Some (xs ! nat i) else None)"

text \<open>A string or \<^verbatim>\<open>undefined\<close> as a condition: true for a string that is not empty.\<close>

fun truthy :: "jsstring option \<Rightarrow> bool" where
  "truthy None = False"
| "truthy (Some s) = (s \<noteq> [])"

text \<open>A number in a template literal, here the length of an array: its decimal digits.\<close>

fun js_of_nat :: "nat \<Rightarrow> jsstring" where
  "js_of_nat n = (if n < 10 then [48 + n] else js_of_nat (n div 10) @ [48 + n mod 10])"

declare js_of_nat.simps [simp del]

definition outDir :: "world \<Rightarrow> jsstring" where
  "outDir w = resolve w [case js_at (args w) 0 of None \<Rightarrow> selfDir w | Some a \<Rightarrow> a]"

definition includeDir :: "world \<Rightarrow> jsstring" where
  "includeDir w =
     (let includeArgIndex = js_indexOf (args w) (js ''--qpdf-include'') in
      if includeArgIndex \<noteq> -1 \<and> truthy (js_at (args w) (includeArgIndex + 1))
      then resolve w [cwd w, case js_at (args w) (includeArgIndex + 1) of None \<Rightarrow> [] | Some a \<Rightarrow> a]
      else resolve w [selfDir w, js ''../../qpdf/include/qpdf''])"

definition headerPath :: "world \<Rightarrow> jsstring" where
  "headerPath w = resolve w [includeDir w, js ''qpdf-c.h'']"

text \<open>Sections 4 to 7 of the script: each artifact is rendered and written in turn.\<close>

definition emit :: "world \<Rightarrow> jsstring list \<Rightarrow> event list \<times> outcome" where
  "emit w exported =
     (let p1 = resolve w [outDir w, js ''exported-functions.txt''];
          c1 = functionsContent exported in
      if \<not> write_ok w p1 then ([Threw (WriteFileSync p1 c1)], Uncaught)
      else
        let p2 = resolve w [outDir w, js ''exported-runtime-methods.txt''];
            c2 = runtimeContent in
        if \<not> write_ok w p2
        then ([Returned (WriteFileSync p1 c1), Threw (WriteFileSync p2 c2)], Uncaught)
        else
          let p3 = resolve w [outDir w, js ''exported-incoming-methods.txt''];
              c3 = incomingContent in
          if \<not> write_ok w p3
          then ([Returned (WriteFileSync p1 c1), Returned (WriteFileSync p2 c2),
                 Threw (WriteFileSync p3 c3)], Uncaught)
          else
            let p4 = resolve w [outDir w, js ''runtime-methods.ts''];
                c4 = tsContent exported in
            if \<not> write_ok w p4
            then ([Returned (WriteFileSync p1 c1), Returned (WriteFileSync p2 c2),
                   Returned (WriteFileSync p3 c3), Threw (WriteFileSync p4 c4)], Uncaught)
            else
              ([Returned (WriteFileSync p1 c1), Returned (WriteFileSync p2 c2),
                Returned (WriteFileSync p3 c3), Returned (WriteFileSync p4 c4),
                Returned (ConsoleLog
                  ([9989] @ js '' Generated WASM export configs in '' @ outDir w))],
               Exit 0))"

text \<open>The whole script: the trace of its calls and how the process ends.\<close>

definition run :: "world \<Rightarrow> event list \<times> outcome" where
  "run w =
     (let t1 = [Returned (ConsoleLog (js ''Output Directory: '' @ outDir w)),
                Returned (ConsoleLog (js ''Include Directory: '' @ includeDir w))] in
      if \<not> mkdir_ok w (outDir w) then (t1 @ [Threw (MkdirSync (outDir w))], Uncaught)
      else
        let t2 = t1 @ [Returned (MkdirSync (outDir w)),
                       Returned (ConsoleLog (js ''Parsing header: '' @ headerPath w))] in
        case file_text w (headerPath w) of
          None \<Rightarrow>
            (t2 @ [Threw (ReadFileSync (headerPath w)),
                   Returned (ConsoleError
                     ([10060] @ js '' Failed to read header file at '' @ headerPath w)),
                   Returned (ConsoleError (js (''Make sure git submodules are initialized '' @
                     ''and you are running from the correct directory.'')))],
             Exit 1)
        | Some headerContent \<Rightarrow>
            let found = foundFunctions (contentWithoutComments headerContent);
                exported = exportedFunctions found;
                t3 = t2 @ [Returned (ReadFileSync (headerPath w)),
                  Returned (ConsoleLog ([55357, 56589] @ js '' Discovered '' @
                    js_of_nat (length found) @ js '' QPDF functions from header.'')),
                  Returned (ConsoleLog (js ''   (Plus '' @ js_of_nat (length manualCFunctions) @
                    js '' manual exports: '' @ js_join (js '', '') manualCFunctions @ js '')''))];
                (t4, out) = emit w exported
            in (t3 @ t4, out))"

section \<open>Observing a run\<close>

text \<open>The files a trace has written: the calls to \<^verbatim>\<open>writeFileSync\<close> that returned.\<close>

fun written :: "event list \<Rightarrow> (jsstring \<times> jsstring) list" where
  "written [] = []"
| "written (Returned (WriteFileSync p c) # es) = (p, c) # written es"
| "written (e # es) = written es"

text \<open>A call to \<^verbatim>\<open>writeFileSync\<close>, whether it returned or threw.\<close>

fun is_write :: "event \<Rightarrow> bool" where
  "is_write (Returned (WriteFileSync p c)) = True"
| "is_write (Threw (WriteFileSync p c)) = True"
| "is_write e = False"

text \<open>The names discovered in a header and the export list made of them.\<close>

definition discovered :: "jsstring \<Rightarrow> jsstring list" where
  "discovered headerContent = foundFunctions (contentWithoutComments headerContent)"

text \<open>
  The four artifacts of a run that has read the header: path and content, in the order
  in which the script writes them.
\<close>

definition artifacts :: "world \<Rightarrow> jsstring \<Rightarrow> (jsstring \<times> jsstring) list" where
  "artifacts w headerContent =
     [(resolve w [outDir w, js ''exported-functions.txt''],
         functionsContent (exportedFunctions (discovered headerContent))),
      (resolve w [outDir w, js ''exported-runtime-methods.txt''], runtimeContent),
      (resolve w [outDir w, js ''exported-incoming-methods.txt''], incomingContent),
      (resolve w [outDir w, js ''runtime-methods.ts''],
         tsContent (exportedFunctions (discovered headerContent)))]"

subsection \<open>Example worlds\<close>

text \<open>
  \<^verbatim>\<open>path.resolve\<close> on POSIX, for segments without \<^verbatim>\<open>.\<close>, \<^verbatim>\<open>..\<close> and repeated or trailing
  slashes: an absolute segment replaces what came before, a relative one is appended.
  \<open>d\<close> is the working directory.
\<close>

definition posix_resolve :: "jsstring \<Rightarrow> jsstring list \<Rightarrow> jsstring" where
  "posix_resolve d ps =
     foldl (\<lambda>acc p. if prefix (js ''/'') p then p else acc @ js ''/'' @ p) d ps"

definition example_header :: jsstring where
  "example_header = js ''QPDF_DLL int qpdf_init(void);''"

text \<open>
  \<^verbatim>\<open>node generate-exports.mjs /w/out --qpdf-include /w/inc\<close>, run in \<^verbatim>\<open>/w\<close>, with a
  header in place and every file writable.
\<close>

definition world_ok :: world where
  "world_ok = \<lparr> args = [js ''/w/out'', js ''--qpdf-include'', js ''/w/inc''],
      selfDir = js ''/w/build'', cwd = js ''/w'',
      resolve = posix_resolve (js ''/w''),
      mkdir_ok = (\<lambda>p. True),
      file_text = (\<lambda>p. if p = js ''/w/inc/qpdf-c.h'' then Some example_header else None),
      write_ok = (\<lambda>p. True) \<rparr>"

text \<open>The same, where \<^verbatim>\<open>exported-runtime-methods.txt\<close> cannot be written.\<close>

definition world_readonly_file :: world where
  "world_readonly_file =
     world_ok \<lparr> write_ok := (\<lambda>p. p \<noteq> js ''/w/out/exported-runtime-methods.txt'') \<rparr>"

text \<open>The same as \<open>world_ok\<close>, without the header.\<close>

definition world_no_header :: world where
  "world_no_header = world_ok \<lparr> file_text := (\<lambda>p. None) \<rparr>"

text \<open>The same as \<open>world_ok\<close>, with another output directory.\<close>

definition world_other_out :: world where
  "world_other_out =
     world_ok \<lparr> args := [js ''/w/dist'', js ''--qpdf-include'', js ''/w/inc''] \<rparr>"

section \<open>Notions used in the statements\<close>

subsection \<open>Matches\<close>

text \<open>Every way in which the atoms can match at the start of the text.\<close>

fun all_matches ::
  "atom list \<Rightarrow> jsstring \<Rightarrow> jsstring \<Rightarrow> jsstring option \<Rightarrow> (jsstring option \<times> jsstring) set"
where
  "all_matches [] s g c = {(c, s)}"
| "all_matches (Lit l # re) s g c =
     (if prefix l s then all_matches re (drop (length l) s) g c else {})"
| "all_matches (Greedy p k # re) s g c = (\<Union>r \<in> set (drop k (splits p s)). all_matches re r g c)"
| "all_matches (Lazy p k # re) s g c = (\<Union>r \<in> set (drop k (splits p s)). all_matches re r g c)"
| "all_matches (Eol # re) s g c =
     (if s = [] \<or> is_line_terminator (hd s) then all_matches re s g c else {})"
| "all_matches (GroupStart # re) s g c = all_matches re s s c"
| "all_matches (GroupEnd # re) s g c =
     all_matches re s g (Some (take (length g - length s) g))"

subsection \<open>Declarations\<close>

text \<open>
  \<open>exported_decl\<close> puts a declaration together from its parts, up to the opening
  parenthesis. \<open>exported_decl_shape\<close> is the shape of the parts that \<open>funcRegex\<close>
  asks for: white space after the export marker; a return type made of word characters,
  white space and asterisks; white space between the return type and the name, which is
  more than a sequence of words followed by a name has to have (\<^verbatim>\<open>char *qpdf_x\<close> has
  none); a name made of \<^verbatim>\<open>qpdf_\<close> and at least one more word character; optional white
  space before the parenthesis.
\<close>

definition exported_decl :: "jsstring \<Rightarrow> jsstring \<Rightarrow> jsstring \<Rightarrow> jsstring \<Rightarrow> jsstring \<Rightarrow> jsstring" where
  "exported_decl ws1 ty ws2 name ws3 = js ''QPDF_DLL'' @ ws1 @ ty @ ws2 @ name @ ws3 @ js ''(''"

definition exported_decl_shape :: "jsstring \<Rightarrow> jsstring \<Rightarrow> jsstring \<Rightarrow> jsstring \<Rightarrow> jsstring \<Rightarrow> bool" where
  "exported_decl_shape ws1 ty ws2 name ws3 \<longleftrightarrow>
     ws1 \<noteq> [] \<and> list_all is_space ws1 \<and>
     ty \<noteq> [] \<and> list_all is_type_char ty \<and>
     ws2 \<noteq> [] \<and> list_all is_space ws2 \<and>
     prefix (js ''qpdf_'') name \<and> length (js ''qpdf_'') < length name \<and> list_all is_word name \<and>
     list_all is_space ws3"

subsection \<open>Reading an artifact back\<close>

text \<open>
  The identifiers of an artifact: the strings between double quotes, in order. \<open>None\<close> is
  the state outside a string, \<open>Some acc\<close> the state inside one, after \<open>acc\<close>.
\<close>

fun quoted_scan :: "jsstring option \<Rightarrow> jsstring \<Rightarrow> jsstring list" where
  "quoted_scan None [] = []"
| "quoted_scan (Some acc) [] = []"
| "quoted_scan None (c # cs) = (if c = 34 then quoted_scan (Some []) cs else quoted_scan None cs)"
| "quoted_scan (Some acc) (c # cs) =
     (if c = 34 then acc # quoted_scan None cs else quoted_scan (Some (acc @ [c])) cs)"

definition quoted_items :: "jsstring \<Rightarrow> jsstring list" where
  "quoted_items text = quoted_scan None text"

text \<open>The text after the first occurrence of a marker, and the text before it.\<close>

fun after_first :: "jsstring \<Rightarrow> jsstring \<Rightarrow> jsstring" where
  "after_first m [] = []"
| "after_first m (c # cs) =
     (if prefix m (c # cs) then drop (length m) (c # cs) else after_first m cs)"

fun before_first :: "jsstring \<Rightarrow> jsstring \<Rightarrow> jsstring" where
  "before_first m [] = []"
| "before_first m (c # cs) = (if prefix m (c # cs) then [] else c # before_first m cs)"

text \<open>
  The export constant of \<^verbatim>\<open>runtime-methods.ts\<close>: what stands between
  \<^verbatim>\<open>export const allExportedFunctions = [\<close> and the next closing bracket.
\<close>

definition ts_export_constant :: "jsstring \<Rightarrow> jsstring" where
  "ts_export_constant ts =
     before_first (js '']'') (after_first (js ''export const allExportedFunctions = ['') ts)"

section \<open>Facts about the assembly\<close>

lemma js_includes_iff: "js_includes s sub \<longleftrightarrow> (\<exists>a b. s = a @ sub @ b)"
proof (induction s)
  case Nil
  then show ?case by auto
next
  case (Cons c cs)
  show ?case
  proof
    assume "js_includes (c # cs) sub"
    then consider "prefix sub (c # cs)" | "js_includes cs sub" by auto
    then show "\<exists>a b. c # cs = a @ sub @ b"
    proof cases
      case 1
      then obtain b where "c # cs = sub @ b" by (auto simp: prefix_def)
      then have "c # cs = [] @ sub @ b" by simp
      then show ?thesis by blast
    next
      case 2
      with Cons.IH obtain a b where "cs = a @ sub @ b" by auto
      then have "c # cs = (c # a) @ sub @ b" by simp
      then show ?thesis by blast
    qed
  next
    assume "\<exists>a b. c # cs = a @ sub @ b"
    then obtain a b where ab: "c # cs = a @ sub @ b" by auto
    show "js_includes (c # cs) sub"
    proof (cases a)
      case Nil
      with ab have "prefix sub (c # cs)" by (simp add: prefix_def)
      then show ?thesis by simp
    next
      case (Cons x a')
      with ab have "cs = a' @ sub @ b" by simp
      with Cons.IH have "js_includes cs sub" by blast
      then show ?thesis by simp
    qed
  qed
qed

text \<open>
  C2, as the code has it. A discovered name is left out of the discovered part of the
  export list exactly when it contains \<^verbatim>\<open>_reserved\<close> somewhere (a substring test), or is,
  character for character, \<^verbatim>\<open>qpdf_c_wrap\<close> or \<^verbatim>\<open>qpdf_c_get_qpdf\<close>.
\<close>

theorem exclusion_test_characterised:
  "f \<in> set (drop (length manualCFunctions) (exportedFunctions found)) \<longleftrightarrow>
     f \<in> set found \<and> \<not> (\<exists>a b. f = a @ js ''_reserved'' @ b) \<and> f \<notin> set excludedNames"
  by (auto simp: exportedFunctions_def keepFunction_def js_includes_iff)

theorem exclusion_test_characterised_witness:
  "js ''QPDF_C_WRAP'' \<in> set (drop (length manualCFunctions)
      (exportedFunctions [js ''QPDF_C_WRAP'', js ''qpdf_c_wrap'', js ''qpdf_a_reserved1''])) \<and>
   js ''qpdf_c_wrap'' \<notin> set (drop (length manualCFunctions)
      (exportedFunctions [js ''QPDF_C_WRAP'', js ''qpdf_c_wrap'', js ''qpdf_a_reserved1'']))"
  using
    exclusion_test_characterised [of "js ''QPDF_C_WRAP''"
      "[js ''QPDF_C_WRAP'', js ''qpdf_c_wrap'', js ''qpdf_a_reserved1'']"]
    exclusion_test_characterised [of "js ''qpdf_c_wrap''"
      "[js ''QPDF_C_WRAP'', js ''qpdf_c_wrap'', js ''qpdf_a_reserved1'']"]
  unfolding js_includes_iff [symmetric]
  by (simp add: excludedNames_def js_def)

text \<open>
  C2, as the claim states it, fails: \<^verbatim>\<open>qpdf_x_reserved\<close> is not a member of the exclusion
  set, and it is removed all the same.
\<close>

theorem exclusion_not_only_membership:
  "js ''qpdf_x_reserved'' \<notin> set excludedNames \<and>
   js ''qpdf_x_reserved'' \<in> set [js ''qpdf_x_reserved''] \<and>
   js ''qpdf_x_reserved'' \<notin>
     set (drop (length manualCFunctions) (exportedFunctions [js ''qpdf_x_reserved'']))"
  by (simp add: exportedFunctions_def keepFunction_def excludedNames_def js_def)

text \<open>
  C3, as the code has it. The export list is the manual list, in its order, followed by
  the discovered names in their order, without those that contain \<^verbatim>\<open>_reserved\<close> and
  those of the exclusion set; with nothing discovered it is the manual list.
\<close>

theorem export_list_shape:
  "take (length manualCFunctions) (exportedFunctions found) = manualCFunctions \<and>
   drop (length manualCFunctions) (exportedFunctions found) =
     filter (\<lambda>f. \<not> (\<exists>a b. f = a @ js ''_reserved'' @ b) \<and> f \<notin> set excludedNames) found \<and>
   exportedFunctions [] = manualCFunctions"
  by (simp add: exportedFunctions_def keepFunction_def js_includes_iff cong: filter_cong)

text \<open>
  C3, as the claim states it, fails: with the exclusion set alone, \<^verbatim>\<open>qpdf_reserved_slot\<close>
  would stay in the export list.
\<close>

theorem export_list_not_exclusion_set_only:
  "exportedFunctions [js ''qpdf_reserved_slot'', js ''qpdf_init''] \<noteq>
     manualCFunctions @
       filter (\<lambda>f. f \<notin> set excludedNames) [js ''qpdf_reserved_slot'', js ''qpdf_init'']"
  by (simp add: exportedFunctions_def keepFunction_def excludedNames_def js_def)

section \<open>Facts about a run\<close>

lemma written_append: "written (a @ b) = written a @ written b"
  by (induction a rule: written.induct) auto

lemma emit_written:
  "written (fst (emit w ex)) =
     takeWhile (\<lambda>(p, c). write_ok w p)
      [(resolve w [outDir w, js ''exported-functions.txt''], functionsContent ex),
       (resolve w [outDir w, js ''exported-runtime-methods.txt''], runtimeContent),
       (resolve w [outDir w, js ''exported-incoming-methods.txt''], incomingContent),
       (resolve w [outDir w, js ''runtime-methods.ts''], tsContent ex)]"
  by (simp add: emit_def Let_def)

lemma emit_outcome:
  "snd (emit w ex) =
     (if write_ok w (resolve w [outDir w, js ''exported-functions.txt'']) \<and>
         write_ok w (resolve w [outDir w, js ''exported-runtime-methods.txt'']) \<and>
         write_ok w (resolve w [outDir w, js ''exported-incoming-methods.txt'']) \<and>
         write_ok w (resolve w [outDir w, js ''runtime-methods.ts''])
      then Exit 0 else Uncaught)"
  by (simp add: emit_def Let_def)

lemma emit_events:
  "e \<in> set (fst (emit w ex)) \<Longrightarrow> is_write e \<or> (\<exists>s. e = Returned (ConsoleLog s))"
  by (auto simp: emit_def Let_def split: if_splits)

lemma run_mkdir_fail:
  assumes "\<not> mkdir_ok w (outDir w)"
  shows "run w =
    ([Returned (ConsoleLog (js ''Output Directory: '' @ outDir w)),
      Returned (ConsoleLog (js ''Include Directory: '' @ includeDir w)),
      Threw (MkdirSync (outDir w))], Uncaught)"
  using assms by (simp add: run_def Let_def)

lemma run_read_fail:
  assumes "mkdir_ok w (outDir w)" and "file_text w (headerPath w) = None"
  shows "run w =
    ([Returned (ConsoleLog (js ''Output Directory: '' @ outDir w)),
      Returned (ConsoleLog (js ''Include Directory: '' @ includeDir w)),
      Returned (MkdirSync (outDir w)),
      Returned (ConsoleLog (js ''Parsing header: '' @ headerPath w)),
      Threw (ReadFileSync (headerPath w)),
      Returned (ConsoleError ([10060] @ js '' Failed to read header file at '' @ headerPath w)),
      Returned (ConsoleError (js (''Make sure git submodules are initialized '' @
        ''and you are running from the correct directory.'')))], Exit 1)"
  using assms by (simp add: run_def Let_def)

lemma run_read_ok:
  assumes "mkdir_ok w (outDir w)" and "file_text w (headerPath w) = Some h"
  shows "\<exists>s1 s2. fst (run w) =
      [Returned (ConsoleLog (js ''Output Directory: '' @ outDir w)),
       Returned (ConsoleLog (js ''Include Directory: '' @ includeDir w)),
       Returned (MkdirSync (outDir w)),
       Returned (ConsoleLog (js ''Parsing header: '' @ headerPath w)),
       Returned (ReadFileSync (headerPath w)),
       Returned (ConsoleLog s1), Returned (ConsoleLog s2)] @
      fst (emit w (exportedFunctions (discovered h)))"
    and "snd (run w) = snd (emit w (exportedFunctions (discovered h)))"
  using assms by (simp_all add: run_def Let_def discovered_def split: prod.splits)

lemma run_read_ok_written:
  assumes "mkdir_ok w (outDir w)" and "file_text w (headerPath w) = Some h"
  shows "written (fst (run w)) = written (fst (emit w (exportedFunctions (discovered h))))"
proof -
  from run_read_ok(1) [OF assms] obtain s1 s2 where "fst (run w) =
      [Returned (ConsoleLog (js ''Output Directory: '' @ outDir w)),
       Returned (ConsoleLog (js ''Include Directory: '' @ includeDir w)),
       Returned (MkdirSync (outDir w)),
       Returned (ConsoleLog (js ''Parsing header: '' @ headerPath w)),
       Returned (ReadFileSync (headerPath w)),
       Returned (ConsoleLog s1), Returned (ConsoleLog s2)] @
      fst (emit w (exportedFunctions (discovered h)))"
    by blast
  then show ?thesis
    by (simp add: written_append)
qed

lemma run_exit0_mkdir: "snd (run w) = Exit 0 \<Longrightarrow> mkdir_ok w (outDir w)"
  by (cases "mkdir_ok w (outDir w)") (simp_all add: run_mkdir_fail)

lemma run_exit0_contents:
  assumes "file_text w (headerPath w) = Some h" and "snd (run w) = Exit 0"
  shows "map snd (written (fst (run w))) =
     [functionsContent (exportedFunctions (discovered h)), runtimeContent, incomingContent,
      tsContent (exportedFunctions (discovered h))]"
proof -
  note m = run_exit0_mkdir [OF assms(2)]
  from assms(2) have "snd (emit w (exportedFunctions (discovered h))) = Exit 0"
    unfolding run_read_ok(2) [OF m assms(1)] .
  then show ?thesis
    unfolding run_read_ok_written [OF m assms(1)] emit_written emit_outcome
    by (simp split: if_splits)
qed

lemma world_ok_paths:
  "outDir world_ok = js ''/w/out''" "headerPath world_ok = js ''/w/inc/qpdf-c.h''"
  by (simp_all add: outDir_def headerPath_def includeDir_def world_ok_def posix_resolve_def
      js_at_def js_def Let_def)

lemma world_readonly_file_paths:
  "outDir world_readonly_file = js ''/w/out''"
  "headerPath world_readonly_file = js ''/w/inc/qpdf-c.h''"
  by (simp_all add: outDir_def headerPath_def includeDir_def world_readonly_file_def world_ok_def
      posix_resolve_def js_at_def js_def Let_def)

lemma world_no_header_paths:
  "outDir world_no_header = js ''/w/out''" "headerPath world_no_header = js ''/w/inc/qpdf-c.h''"
  by (simp_all add: outDir_def headerPath_def includeDir_def world_no_header_def world_ok_def
      posix_resolve_def js_at_def js_def Let_def)

lemma world_other_out_paths:
  "outDir world_other_out = js ''/w/dist''" "headerPath world_other_out = js ''/w/inc/qpdf-c.h''"
  by (simp_all add: outDir_def headerPath_def includeDir_def world_other_out_def world_ok_def
      posix_resolve_def js_at_def js_def Let_def)

lemma world_readonly_file_reads:
  "mkdir_ok world_readonly_file (outDir world_readonly_file)"
  "file_text world_readonly_file (headerPath world_readonly_file) = Some example_header"
  unfolding world_readonly_file_paths
  by (simp_all add: world_readonly_file_def world_ok_def)

lemma world_readonly_file_writes:
  "map (\<lambda>(p, c). write_ok world_readonly_file p) (artifacts world_readonly_file h) =
     [True, False, True, True]"
  "map fst (artifacts world_readonly_file h) =
     [js ''/w/out/exported-functions.txt'', js ''/w/out/exported-runtime-methods.txt'',
      js ''/w/out/exported-incoming-methods.txt'', js ''/w/out/runtime-methods.ts'']"
  unfolding artifacts_def world_readonly_file_paths
  by (simp_all add: world_readonly_file_def world_ok_def posix_resolve_def js_def)

text \<open>
  C1, as the code has it. The script renders and writes the artifacts one after another,
  in the order \<^verbatim>\<open>exported-functions.txt\<close>, \<^verbatim>\<open>exported-runtime-methods.txt\<close>,
  \<^verbatim>\<open>exported-incoming-methods.txt\<close>, \<^verbatim>\<open>runtime-methods.ts\<close>. In a run that has read the
  header, the files written are the artifacts before the first one whose write throws,
  each with its full content; the run ends with status 0 when all four are written and
  with the exception otherwise.
\<close>

theorem writes_stop_at_first_failure:
  assumes "mkdir_ok w (outDir w)" and "file_text w (headerPath w) = Some h"
  shows "written (fst (run w)) = takeWhile (\<lambda>(p, c). write_ok w p) (artifacts w h) \<and>
         snd (run w) = (if list_all (\<lambda>(p, c). write_ok w p) (artifacts w h) then Exit 0 else Uncaught)"
  unfolding run_read_ok_written [OF assms] run_read_ok(2) [OF assms] emit_written emit_outcome
    artifacts_def
  by simp

theorem writes_stop_at_first_failure_witness:
  "mkdir_ok world_readonly_file (outDir world_readonly_file) \<and>
   file_text world_readonly_file (headerPath world_readonly_file) = Some example_header \<and>
   written (fst (run world_readonly_file)) = take 1 (artifacts world_readonly_file example_header) \<and>
   snd (run world_readonly_file) = Uncaught"
proof -
  have "takeWhile (\<lambda>(p, c). write_ok world_readonly_file p) (artifacts world_readonly_file example_header)
      = take 1 (artifacts world_readonly_file example_header)"
    and "\<not> list_all (\<lambda>(p, c). write_ok world_readonly_file p) (artifacts world_readonly_file example_header)"
    using world_readonly_file_writes(1) [of example_header]
    by (auto simp: artifacts_def)
  with writes_stop_at_first_failure [OF world_readonly_file_reads] world_readonly_file_reads
  show ?thesis by simp
qed

text \<open>
  C1, as the claim states it, fails: where the second write throws, the run ends with
  the exception, \<^verbatim>\<open>exported-functions.txt\<close> has been written and the three others have
  not.
\<close>

theorem partial_emission:
  "snd (run world_readonly_file) = Uncaught \<and>
   map fst (written (fst (run world_readonly_file))) = [js ''/w/out/exported-functions.txt''] \<and>
   length (artifacts world_readonly_file example_header) = 4"
proof -
  note r = world_readonly_file_reads
  have w: "write_ok world_readonly_file q = (q \<noteq> js ''/w/out/exported-runtime-methods.txt'')"
    and s: "resolve world_readonly_file = posix_resolve (js ''/w'')" for q
    by (simp_all add: world_readonly_file_def world_ok_def)
  have "snd (run world_readonly_file) = Uncaught"
    unfolding run_read_ok(2) [OF r] emit_outcome world_readonly_file_paths
    by (simp add: w s posix_resolve_def js_def)
  moreover have "map fst (written (fst (run world_readonly_file))) = [js ''/w/out/exported-functions.txt'']"
    unfolding run_read_ok_written [OF r] emit_written world_readonly_file_paths
    by (simp add: w s posix_resolve_def js_def)
  ultimately show ?thesis
    by (simp add: artifacts_def)
qed

lemma world_no_header_reads:
  "mkdir_ok world_no_header (outDir world_no_header)"
  "file_text world_no_header (headerPath world_no_header) = None"
  by (simp_all add: world_no_header_def world_ok_def)

lemma world_ok_reads:
  "mkdir_ok world_ok (outDir world_ok)"
  "file_text world_ok (headerPath world_ok) = Some example_header"
  unfolding world_ok_paths by (simp_all add: world_ok_def)

lemma world_other_out_reads:
  "mkdir_ok world_other_out (outDir world_other_out)"
  "file_text world_other_out (headerPath world_other_out) = Some example_header"
  unfolding world_other_out_paths by (simp_all add: world_other_out_def world_ok_def)

lemma world_ok_exit: "snd (run world_ok) = Exit 0"
  unfolding run_read_ok(2) [OF world_ok_reads] emit_outcome
  by (simp add: world_ok_def)

lemma world_other_out_exit: "snd (run world_other_out) = Exit 0"
  unfolding run_read_ok(2) [OF world_other_out_reads] emit_outcome
  by (simp add: world_other_out_def world_ok_def)

text \<open>
  C4. In every run in which reading the header throws, the path read is the header path,
  the process ends with status 1, the first message on the error stream ends with that
  path, and \<^verbatim>\<open>writeFileSync\<close> is never called.
\<close>

theorem header_read_failure_is_fatal:
  assumes "Threw (ReadFileSync p) \<in> set (fst (run w))"
  shows "snd (run w) = Exit 1 \<and> p = headerPath w \<and>
         Returned (ConsoleError ([10060] @ js '' Failed to read header file at '' @ p))
           \<in> set (fst (run w)) \<and>
         \<not> list_ex is_write (fst (run w))"
proof (cases "mkdir_ok w (outDir w)")
  case False
  with assms show ?thesis by (simp add: run_mkdir_fail)
next
  case True
  show ?thesis
  proof (cases "file_text w (headerPath w)")
    case None
    with True assms show ?thesis by (auto simp: run_read_fail)
  next
    case (Some h)
    from run_read_ok(1) [OF True Some] assms
    have "Threw (ReadFileSync p) \<in> set (fst (emit w (exportedFunctions (discovered h))))"
      by auto
    from emit_events [OF this] show ?thesis by simp
  qed
qed

theorem header_read_failure_is_fatal_witness:
  "Threw (ReadFileSync (js ''/w/inc/qpdf-c.h'')) \<in> set (fst (run world_no_header)) \<and>
   snd (run world_no_header) = Exit 1 \<and>
   Returned (ConsoleError ([10060] @ js '' Failed to read header file at /w/inc/qpdf-c.h''))
     \<in> set (fst (run world_no_header)) \<and>
   \<not> list_ex is_write (fst (run world_no_header))"
proof -
  have t: "Threw (ReadFileSync (js ''/w/inc/qpdf-c.h'')) \<in> set (fst (run world_no_header))"
    unfolding run_read_fail [OF world_no_header_reads] world_no_header_paths by simp
  from header_read_failure_is_fatal [OF t] t show ?thesis
    by (simp add: world_no_header_paths js_def)
qed

text \<open>
  C9. Two runs that read the same header text and end with status 0 write the same four
  contents, whatever their arguments, directories and paths are.
\<close>

theorem artifacts_depend_on_header_only:
  assumes "file_text w (headerPath w) = Some h" and "file_text w' (headerPath w') = Some h"
    and "snd (run w) = Exit 0" and "snd (run w') = Exit 0"
  shows "map snd (written (fst (run w))) = map snd (written (fst (run w'))) \<and>
         length (written (fst (run w))) = 4"
proof -
  have "length (map snd (written (fst (run w)))) = 4"
    unfolding run_exit0_contents [OF assms(1) assms(3)] by simp
  then have "length (written (fst (run w))) = 4"
    by simp
  moreover have "map snd (written (fst (run w))) = map snd (written (fst (run w')))"
    unfolding run_exit0_contents [OF assms(1) assms(3)] run_exit0_contents [OF assms(2) assms(4)]
    by simp
  ultimately show ?thesis by simp
qed

theorem artifacts_depend_on_header_only_witness:
  "file_text world_ok (headerPath world_ok) = Some example_header \<and>
   file_text world_other_out (headerPath world_other_out) = Some example_header \<and>
   snd (run world_ok) = Exit 0 \<and> snd (run world_other_out) = Exit 0 \<and>
   outDir world_ok \<noteq> outDir world_other_out \<and>
   map snd (written (fst (run world_ok))) = map snd (written (fst (run world_other_out))) \<and>
   length (written (fst (run world_ok))) = 4"
proof -
  have "outDir world_ok \<noteq> outDir world_other_out"
    unfolding world_ok_paths world_other_out_paths by (simp add: js_def)
  with artifacts_depend_on_header_only [OF world_ok_reads(2) world_other_out_reads(2)
      world_ok_exit world_other_out_exit]
    world_ok_reads(2) world_other_out_reads(2) world_ok_exit world_other_out_exit
  show ?thesis by blast
qed

text \<open>
  C10. In every run, whatever comes before the call that reads the header includes the
  call of \<^verbatim>\<open>mkdirSync\<close> on the output directory, which has returned; and when the read
  throws, \<^verbatim>\<open>writeFileSync\<close> is never called: the directory has been created, the four
  files have not been touched.
\<close>

theorem mkdir_precedes_header_read:
  assumes "fst (run w) = a @ ev # b"
    and "ev = Returned (ReadFileSync p) \<or> ev = Threw (ReadFileSync p)"
  shows "Returned (MkdirSync (outDir w)) \<in> set a \<and>
         (ev = Threw (ReadFileSync p) \<longrightarrow> \<not> list_ex is_write (fst (run w)))"
proof (cases "mkdir_ok w (outDir w)")
  case False
  with assms show ?thesis
    by (auto simp: run_mkdir_fail Cons_eq_append_conv append_eq_Cons_conv)
next
  case True
  show ?thesis
  proof (cases "file_text w (headerPath w)")
    case None
    with True assms show ?thesis
      by (auto simp: run_read_fail Cons_eq_append_conv append_eq_Cons_conv)
  next
    case (Some h)
    let ?e = "fst (emit w (exportedFunctions (discovered h)))"
    let ?P = "[Returned (ConsoleLog (js ''Output Directory: '' @ outDir w)),
       Returned (ConsoleLog (js ''Include Directory: '' @ includeDir w)),
       Returned (MkdirSync (outDir w)),
       Returned (ConsoleLog (js ''Parsing header: '' @ headerPath w)),
       Returned (ReadFileSync (headerPath w))]"
    from run_read_ok(1) [OF True Some] assms(1) obtain s1 s2
      where tr: "a @ ev # b = ?P @ (Returned (ConsoleLog s1) # Returned (ConsoleLog s2) # ?e)"
      by auto
    have no: "ev \<notin> set (Returned (ConsoleLog s1) # Returned (ConsoleLog s2) # ?e)"
      using assms(2) by (auto dest: emit_events)
    from tr obtain us where
      "(a = ?P @ us \<and> us @ ev # b = Returned (ConsoleLog s1) # Returned (ConsoleLog s2) # ?e) \<or>
       (a @ us = ?P \<and> ev # b = us @ Returned (ConsoleLog s1) # Returned (ConsoleLog s2) # ?e)"
      unfolding append_eq_append_conv2 by blast
    then show ?thesis
    proof (elim disjE conjE)
      assume "us @ ev # b = Returned (ConsoleLog s1) # Returned (ConsoleLog s2) # ?e"
      then have "ev \<in> set (Returned (ConsoleLog s1) # Returned (ConsoleLog s2) # ?e)"
        by (metis in_set_conv_decomp)
      with no show ?thesis by blast
    next
      assume P: "a @ us = ?P"
        and E: "ev # b = us @ Returned (ConsoleLog s1) # Returned (ConsoleLog s2) # ?e"
      show ?thesis
      proof (cases us)
        case Nil
        with E assms(2) show ?thesis by auto
      next
        case (Cons u us')
        with E have "u = ev" by simp
        with P Cons assms(2) show ?thesis
          by (auto simp: append_eq_Cons_conv Cons_eq_append_conv)
      qed
    qed
  qed
qed

theorem mkdir_precedes_header_read_witness:
  "fst (run world_no_header) =
     [Returned (ConsoleLog (js ''Output Directory: /w/out'')),
      Returned (ConsoleLog (js ''Include Directory: /w/inc'')),
      Returned (MkdirSync (js ''/w/out'')),
      Returned (ConsoleLog (js ''Parsing header: /w/inc/qpdf-c.h''))] @
     Threw (ReadFileSync (js ''/w/inc/qpdf-c.h'')) #
     [Returned (ConsoleError ([10060] @ js '' Failed to read header file at /w/inc/qpdf-c.h'')),
      Returned (ConsoleError (js (''Make sure git submodules are initialized '' @
        ''and you are running from the correct directory.'')))] \<and>
   Returned (MkdirSync (outDir world_no_header)) \<in> set
     [Returned (ConsoleLog (js ''Output Directory: /w/out'')),
      Returned (ConsoleLog (js ''Include Directory: /w/inc'')),
      Returned (MkdirSync (js ''/w/out'')),
      Returned (ConsoleLog (js ''Parsing header: /w/inc/qpdf-c.h''))] \<and>
   \<not> list_ex is_write (fst (run world_no_header))"
proof -
  have i: "includeDir world_no_header = js ''/w/inc''"
    by (simp add: includeDir_def world_no_header_def world_ok_def posix_resolve_def js_at_def
        js_def Let_def)
  have t: "fst (run world_no_header) =
     [Returned (ConsoleLog (js ''Output Directory: /w/out'')),
      Returned (ConsoleLog (js ''Include Directory: /w/inc'')),
      Returned (MkdirSync (js ''/w/out'')),
      Returned (ConsoleLog (js ''Parsing header: /w/inc/qpdf-c.h''))] @
     Threw (ReadFileSync (js ''/w/inc/qpdf-c.h'')) #
     [Returned (ConsoleError ([10060] @ js '' Failed to read header file at /w/inc/qpdf-c.h'')),
      Returned (ConsoleError (js (''Make sure git submodules are initialized '' @
        ''and you are running from the correct directory.'')))]"
    unfolding run_read_fail [OF world_no_header_reads] world_no_header_paths i
    by (simp add: js_def)
  from mkdir_precedes_header_read [OF t, of "js ''/w/inc/qpdf-c.h''"] t show ?thesis
    by simp
qed

section \<open>Facts about the matcher\<close>

lemma first_some_map_None:
  "first_some (map f xs) = None \<longleftrightarrow> (\<forall>x \<in> set xs. f x = None)"
proof (induction xs)
  case Nil
  then show ?case by simp
next
  case (Cons x xs)
  then show ?case by (cases "f x") auto
qed

lemma first_some_map_Some:
  "first_some (map f xs) = Some r \<Longrightarrow> \<exists>x \<in> set xs. f x = Some r"
proof (induction xs)
  case Nil
  then show ?case by simp
next
  case (Cons x xs)
  then show ?case by (cases "f x") auto
qed

lemma splits_eq: "splits p s = map (\<lambda>n. drop n s) [0..<Suc (length (takeWhile p s))]"
proof (induction s)
  case Nil
  then show ?case by simp
next
  case (Cons c cs)
  show ?case
  proof (cases "p c")
    case True
    have "[0..<Suc (Suc (length (takeWhile p cs)))] = 0 # map Suc [0..<Suc (length (takeWhile p cs))]"
      by (metis map_Suc_upt upt_conv_Cons zero_less_Suc)
    with True Cons show ?thesis
      by (simp add: comp_def del: upt_Suc)
  next
    case False
    then show ?thesis by simp
  qed
qed

lemma in_splits_iff:
  "r \<in> set (drop k (splits p s)) \<longleftrightarrow> (\<exists>a. s = a @ r \<and> (\<forall>x \<in> set a. p x) \<and> k \<le> length a)"
proof
  assume "r \<in> set (drop k (splits p s))"
  then obtain n where n: "k \<le> n" "n \<le> length (takeWhile p s)" "r = drop n s"
    unfolding splits_eq drop_map by (auto simp del: upt_Suc)
  have "s = take n s @ r"
    using n by simp
  moreover have "\<forall>x \<in> set (take n s). p x"
  proof -
    have "take n s = take n (takeWhile p s)"
      using n(2) by (metis append_eq_conv_conj length_take min.absorb2 takeWhile_dropWhile_id take_append take_all_iff order_refl diff_is_0_eq' take0 append_Nil2)
    then show ?thesis
      by (metis in_set_takeD set_takeWhileD)
  qed
  moreover have "k \<le> length (take n s)"
    using n by (metis length_take length_takeWhile_le min.absorb2 order_trans)
  ultimately show "\<exists>a. s = a @ r \<and> (\<forall>x \<in> set a. p x) \<and> k \<le> length a"
    by blast
next
  assume "\<exists>a. s = a @ r \<and> (\<forall>x \<in> set a. p x) \<and> k \<le> length a"
  then obtain a where a: "s = a @ r" "\<forall>x \<in> set a. p x" "k \<le> length a" by blast
  then have "length a \<le> length (takeWhile p s)"
    by (simp add: takeWhile_append2)
  moreover have "r = drop (length a) s"
    using a by simp
  ultimately show "r \<in> set (drop k (splits p s))"
    unfolding splits_eq drop_map using a(3)
    by (auto simp del: upt_Suc intro!: image_eqI [where x = "length a"])
qed

lemma matchhere_in_all_matches:
  "matchhere re s g c = Some x \<Longrightarrow> x \<in> all_matches re s g c"
proof (induction re s g c rule: matchhere.induct)
  case (3 p k re s g c)
  from first_some_map_Some [OF "3.prems" [simplified]]
  obtain r where "r \<in> set (drop k (splits p s))" "matchhere re r g c = Some x"
    by auto
  with "3.IH" show ?case by auto
next
  case (4 p k re s g c)
  from first_some_map_Some [OF "4.prems" [simplified]]
  obtain r where "r \<in> set (drop k (splits p s))" "matchhere re r g c = Some x"
    by auto
  with "4.IH" show ?case by auto
qed (auto split: if_splits list.splits)

lemma matchhere_None_iff:
  "matchhere re s g c = None \<longleftrightarrow> all_matches re s g c = {}"
proof (induction re s g c rule: matchhere.induct)
  case (3 p k re s g c)
  then show ?case by (simp add: first_some_map_None)
next
  case (4 p k re s g c)
  then show ?case by (simp add: first_some_map_None)
qed (auto split: if_splits list.splits)

lemma one_le_length: "1 \<le> length a \<longleftrightarrow> a \<noteq> []" "Suc 0 \<le> length a \<longleftrightarrow> a \<noteq> []"
  by (cases a; simp)+

lemma all_matches_Greedy:
  "x \<in> all_matches (Greedy p k # re) s g c \<longleftrightarrow>
   (\<exists>a r. s = a @ r \<and> (\<forall>y \<in> set a. p y) \<and> k \<le> length a \<and> x \<in> all_matches re r g c)"
  unfolding all_matches.simps UN_iff Bex_def in_splits_iff by blast

lemma all_matches_Lit:
  "x \<in> all_matches (Lit l # re) s g c \<longleftrightarrow> (\<exists>r. s = l @ r \<and> x \<in> all_matches re r g c)"
  by (auto simp: prefix_def)

lemma funcRegex_all_matches:
  "(m, rest) \<in> all_matches funcRegex s g c \<longleftrightarrow>
     (\<exists>a t b w e.
        s = js ''QPDF_DLL'' @ a @ t @ b @ js ''qpdf_'' @ w @ e @ js ''('' @ rest \<and>
        a \<noteq> [] \<and> (\<forall>x \<in> set a. is_space x) \<and>
        t \<noteq> [] \<and> (\<forall>x \<in> set t. is_type_char x) \<and>
        b \<noteq> [] \<and> (\<forall>x \<in> set b. is_space x) \<and>
        w \<noteq> [] \<and> (\<forall>x \<in> set w. is_word x) \<and>
        (\<forall>x \<in> set e. is_space x) \<and>
        m = Some (js ''qpdf_'' @ w))"
proof -
  have tail: "(m, rest) \<in> all_matches [Lit (js ''qpdf_''), Greedy is_word 1, GroupEnd, Greedy is_space 0, Lit (js ''('')] r r c
     \<longleftrightarrow> (\<exists>w e. r = js ''qpdf_'' @ w @ e @ js ''('' @ rest \<and> w \<noteq> [] \<and> (\<forall>x \<in> set w. is_word x) \<and>
        (\<forall>x \<in> set e. is_space x) \<and> m = Some (js ''qpdf_'' @ w))" for r
  proof -
    have "(m, rest) \<in> all_matches [Lit (js ''qpdf_''), Greedy is_word 1, GroupEnd, Greedy is_space 0, Lit (js ''('')] r r c
     \<longleftrightarrow> (\<exists>r1 w r2 e. r = js ''qpdf_'' @ r1 \<and> r1 = w @ r2 \<and> (\<forall>x \<in> set w. is_word x) \<and> 1 \<le> length w \<and>
          r2 = e @ js ''('' @ rest \<and> (\<forall>x \<in> set e. is_space x) \<and> m = Some (take (length r - length r2) r))"
      unfolding all_matches_Lit all_matches_Greedy all_matches.simps(7) all_matches.simps(1)
      by auto
    also have "\<dots> \<longleftrightarrow> (\<exists>w e. r = js ''qpdf_'' @ w @ e @ js ''('' @ rest \<and> w \<noteq> [] \<and> (\<forall>x \<in> set w. is_word x) \<and>
        (\<forall>x \<in> set e. is_space x) \<and> m = Some (js ''qpdf_'' @ w))"
      (is "?A \<longleftrightarrow> ?B")
    proof
      assume ?A
      then obtain r1 w r2 e where *: "r = js ''qpdf_'' @ r1" "r1 = w @ r2"
        "\<forall>x \<in> set w. is_word x" "1 \<le> length w" "r2 = e @ js ''('' @ rest"
        "\<forall>x \<in> set e. is_space x" "m = Some (take (length r - length r2) r)"
        by blast
      have "r = (js ''qpdf_'' @ w) @ r2"
        using *(1,2) by simp
      then have "take (length r - length r2) r = js ''qpdf_'' @ w"
        by simp
      with * have "r = js ''qpdf_'' @ w @ e @ js ''('' @ rest \<and> w \<noteq> [] \<and>
          (\<forall>x \<in> set w. is_word x) \<and> (\<forall>x \<in> set e. is_space x) \<and> m = Some (js ''qpdf_'' @ w)"
        by (simp add: one_le_length)
      then show ?B by blast
    next
      assume ?B
      then obtain w e where *: "r = js ''qpdf_'' @ w @ e @ js ''('' @ rest" "w \<noteq> []"
        "\<forall>x \<in> set w. is_word x" "\<forall>x \<in> set e. is_space x" "m = Some (js ''qpdf_'' @ w)"
        by blast
      have "r = (js ''qpdf_'' @ w) @ (e @ js ''('' @ rest)"
        using *(1) by simp
      then have "take (length r - length (e @ js ''('' @ rest)) r = js ''qpdf_'' @ w"
        by simp
      with * have "r = js ''qpdf_'' @ (w @ e @ js ''('' @ rest) \<and> w @ e @ js ''('' @ rest = w @ (e @ js ''('' @ rest) \<and>
          (\<forall>x \<in> set w. is_word x) \<and> 1 \<le> length w \<and> e @ js ''('' @ rest = e @ js ''('' @ rest \<and>
          (\<forall>x \<in> set e. is_space x) \<and> m = Some (take (length r - length (e @ js ''('' @ rest)) r)"
        by (simp add: one_le_length)
      then show ?A by blast
    qed
    finally show ?thesis .
  qed
  have "(m, rest) \<in> all_matches funcRegex s g c \<longleftrightarrow>
    (\<exists>r0 a r1 t r2 b r. s = js ''QPDF_DLL'' @ r0 \<and> r0 = a @ r1 \<and> (\<forall>x \<in> set a. is_space x) \<and> 1 \<le> length a \<and>
       r1 = t @ r2 \<and> (\<forall>x \<in> set t. is_type_char x) \<and> 1 \<le> length t \<and>
       r2 = b @ r \<and> (\<forall>x \<in> set b. is_space x) \<and> 1 \<le> length b \<and>
       (m, rest) \<in> all_matches [Lit (js ''qpdf_''), Greedy is_word 1, GroupEnd, Greedy is_space 0, Lit (js ''('')] r r c)"
    unfolding funcRegex_def all_matches_Lit all_matches_Greedy all_matches.simps(6)
    by blast
  also have "\<dots> \<longleftrightarrow> (\<exists>a t b w e.
        s = js ''QPDF_DLL'' @ a @ t @ b @ js ''qpdf_'' @ w @ e @ js ''('' @ rest \<and>
        a \<noteq> [] \<and> (\<forall>x \<in> set a. is_space x) \<and>
        t \<noteq> [] \<and> (\<forall>x \<in> set t. is_type_char x) \<and>
        b \<noteq> [] \<and> (\<forall>x \<in> set b. is_space x) \<and>
        w \<noteq> [] \<and> (\<forall>x \<in> set w. is_word x) \<and>
        (\<forall>x \<in> set e. is_space x) \<and>
        m = Some (js ''qpdf_'' @ w))"
    unfolding tail one_le_length by blast
  finally show ?thesis .
qed

lemma split_unique:
  assumes "a @ b = c @ d" and "\<forall>x \<in> set b. P x" and "\<forall>x \<in> set d. P x"
    and "a \<noteq> [] \<Longrightarrow> \<not> P (last a)" and "c \<noteq> [] \<Longrightarrow> \<not> P (last c)"
  shows "a = c \<and> b = d"
proof -
  from assms(1) obtain us where "(a = c @ us \<and> us @ b = d) \<or> (a @ us = c \<and> b = us @ d)"
    unfolding append_eq_append_conv2 by blast
  then show ?thesis
  proof (elim disjE conjE)
    assume *: "a = c @ us" "us @ b = d"
    have "us = []"
    proof (rule ccontr)
      assume "us \<noteq> []"
      then have "a \<noteq> []" "last a = last us" "last us \<in> set d"
        using * by auto
      with assms(3,4) show False by metis
    qed
    with * show ?thesis by simp
  next
    assume *: "a @ us = c" "b = us @ d"
    have "us = []"
    proof (rule ccontr)
      assume "us \<noteq> []"
      then have "c \<noteq> []" "last c = last us" "last us \<in> set b"
        using * by auto
      with assms(2,5) show False by metis
    qed
    with * show ?thesis by simp
  qed
qed

lemma first_occurrence_unique:
  assumes "u @ x # r = d @ x # p" and "x \<notin> set u" and "x \<notin> set d"
  shows "u = d \<and> r = p"
proof -
  from assms(1) obtain us where "(u = d @ us \<and> us @ x # r = x # p) \<or> (u @ us = d \<and> x # r = us @ x # p)"
    unfolding append_eq_append_conv2 by blast
  then show ?thesis
  proof (elim disjE conjE)
    assume *: "u = d @ us" "us @ x # r = x # p"
    with assms(2) have "us = []" by (cases us) auto
    with * show ?thesis by simp
  next
    assume *: "u @ us = d" "x # r = us @ x # p"
    with assms(3) have "us = []" by (cases us) auto
    with * show ?thesis by simp
  qed
qed

lemma match_overlap:
  assumes "x @ y # rest = pre @ d @ y # post" and "y \<notin> set x" and "y \<notin> set d"
  shows "(\<exists>pre'. pre = x @ y # pre' \<and> rest = pre' @ d @ y # post) \<or> (x = pre @ d \<and> rest = post)"
proof -
  from assms(1) obtain us where
    "(x = pre @ us \<and> us @ y # rest = d @ y # post) \<or> (x @ us = pre \<and> y # rest = us @ d @ y # post)"
    unfolding append_eq_append_conv2 by blast
  then show ?thesis
  proof (elim disjE conjE)
    assume *: "x = pre @ us" "us @ y # rest = d @ y # post"
    with assms(2) have "y \<notin> set us" by simp
    from first_occurrence_unique [OF *(2) this assms(3)] * show ?thesis by simp
  next
    assume *: "x @ us = pre" "y # rest = us @ d @ y # post"
    show ?thesis
    proof (cases us)
      case Nil
      with * have "[] @ y # rest = d @ y # post" by simp
      from first_occurrence_unique [OF this _ assms(3)] * Nil show ?thesis by simp
    next
      case (Cons u us')
      with * show ?thesis by auto
    qed
  qed
qed

lemma space_not_word: "is_space x \<Longrightarrow> \<not> is_word x"
  by (auto simp: is_space_def is_word_def)

lemma paren_classes: "\<not> is_space 40" "\<not> is_word 40" "\<not> is_type_char 40"
  by (simp_all add: is_space_def is_word_def is_type_char_def)

lemma js_literals:
  "js ''('' = [40]" "40 \<notin> set (js ''QPDF_DLL'')" "40 \<notin> set (js ''qpdf_'')"
  "list_all is_word (js ''qpdf_'')" "js ''qpdf_'' \<noteq> []"
  by (simp_all add: js_def is_word_def)

lemma funcRegex_match_at_decl:
  assumes sh: "exported_decl_shape ws1 ty ws2 name ws3"
    and m: "(m, rest) \<in> all_matches funcRegex (pre @ exported_decl ws1 ty ws2 name ws3 @ post) g c"
  shows "(\<exists>pre'. length pre' < length pre \<and> rest = pre' @ exported_decl ws1 ty ws2 name ws3 @ post) \<or>
         (m = Some name \<and> rest = post)"
proof -
  from m obtain a t b w e where
    s: "pre @ exported_decl ws1 ty ws2 name ws3 @ post =
          js ''QPDF_DLL'' @ a @ t @ b @ js ''qpdf_'' @ w @ e @ js ''('' @ rest"
    and c: "a \<noteq> []" "\<forall>x \<in> set a. is_space x" "t \<noteq> []" "\<forall>x \<in> set t. is_type_char x"
      "b \<noteq> []" "\<forall>x \<in> set b. is_space x" "w \<noteq> []" "\<forall>x \<in> set w. is_word x"
      "\<forall>x \<in> set e. is_space x"
    and mm: "m = Some (js ''qpdf_'' @ w)"
    unfolding funcRegex_all_matches by blast
  from sh have d: "ws1 \<noteq> []" "\<forall>x \<in> set ws1. is_space x" "ty \<noteq> []" "\<forall>x \<in> set ty. is_type_char x"
      "ws2 \<noteq> []" "\<forall>x \<in> set ws2. is_space x" "name \<noteq> []" "\<forall>x \<in> set name. is_word x"
      "\<forall>x \<in> set ws3. is_space x"
    by (auto simp: exported_decl_shape_def list_all_iff)
  let ?x = "js ''QPDF_DLL'' @ a @ t @ b @ js ''qpdf_'' @ w @ e"
  let ?d = "js ''QPDF_DLL'' @ ws1 @ ty @ ws2 @ name @ ws3"
  have x40: "40 \<notin> set ?x"
    using c paren_classes js_literals(2,3) by auto
  have d40: "40 \<notin> set ?d"
    using d paren_classes js_literals(2) by auto
  from s have "?x @ 40 # rest = pre @ ?d @ 40 # post"
    by (simp add: exported_decl_def js_literals(1))
  from match_overlap [OF this x40 d40]
  show ?thesis
  proof (elim disjE exE conjE)
    fix pre'
    assume "pre = ?x @ 40 # pre'" "rest = pre' @ ?d @ 40 # post"
    then have "length pre' < length pre \<and> rest = pre' @ exported_decl ws1 ty ws2 name ws3 @ post"
      by (simp add: exported_decl_def js_literals(1))
    then show ?thesis by blast
  next
    assume eq: "?x = pre @ ?d" and r: "rest = post"
    have "(js ''QPDF_DLL'' @ a @ t @ b @ js ''qpdf_'' @ w) @ e =
          (pre @ js ''QPDF_DLL'' @ ws1 @ ty @ ws2 @ name) @ ws3"
      using eq by simp
    moreover have "\<not> is_space (last w)" "\<not> is_space (last name)"
      using c(7,8) d(7,8) space_not_word last_in_set by blast+
    ultimately have eq2: "js ''QPDF_DLL'' @ a @ t @ b @ js ''qpdf_'' @ w =
        pre @ js ''QPDF_DLL'' @ ws1 @ ty @ ws2 @ name"
      using split_unique [of "js ''QPDF_DLL'' @ a @ t @ b @ js ''qpdf_'' @ w" e
          "pre @ js ''QPDF_DLL'' @ ws1 @ ty @ ws2 @ name" ws3 is_space] c(7,9) d(7,9)
      by simp
    have "(js ''QPDF_DLL'' @ a @ t @ b) @ (js ''qpdf_'' @ w) =
          (pre @ js ''QPDF_DLL'' @ ws1 @ ty @ ws2) @ name"
      using eq2 by simp
    moreover have "\<not> is_word (last b)" "\<not> is_word (last ws2)"
      using c(5,6) d(5,6) space_not_word last_in_set by blast+
    moreover have "\<forall>x \<in> set (js ''qpdf_'' @ w). is_word x"
      using c(8) js_literals(4) by (auto simp: list_all_iff)
    ultimately have "js ''qpdf_'' @ w = name"
      using split_unique [of "js ''QPDF_DLL'' @ a @ t @ b" "js ''qpdf_'' @ w"
          "pre @ js ''QPDF_DLL'' @ ws1 @ ty @ ws2" name is_word] c(5) d(5,8)
      by simp
    with mm r show ?thesis by simp
  qed
qed

lemma exported_decl_has_match:
  assumes "exported_decl_shape ws1 ty ws2 name ws3"
  shows "(Some name, post) \<in> all_matches funcRegex (exported_decl ws1 ty ws2 name ws3 @ post) g c"
proof -
  from assms obtain w where w: "name = js ''qpdf_'' @ w" "w \<noteq> []"
    by (auto simp: exported_decl_shape_def prefix_def)
  with assms have "list_all is_word w"
    by (simp add: exported_decl_shape_def)
  with assms w show ?thesis
    unfolding funcRegex_all_matches exported_decl_def exported_decl_shape_def list_all_iff
    by (intro exI [of _ ws1] exI [of _ ty] exI [of _ ws2] exI [of _ w] exI [of _ ws3]) simp
qed

lemma matchhere_exported_decl:
  assumes "exported_decl_shape ws1 ty ws2 name ws3"
  shows "matchhere funcRegex (exported_decl ws1 ty ws2 name ws3 @ post) g c = Some (Some name, post)"
proof -
  let ?s = "exported_decl ws1 ty ws2 name ws3 @ post"
  from exported_decl_has_match [OF assms] have "matchhere funcRegex ?s g c \<noteq> None"
    unfolding matchhere_None_iff by blast
  then obtain m rest where r: "matchhere funcRegex ?s g c = Some (m, rest)"
    by auto
  from matchhere_in_all_matches [OF r] have "(m, rest) \<in> all_matches funcRegex ([] @ ?s) g c"
    by simp
  from funcRegex_match_at_decl [OF assms this] r show ?thesis
    by simp
qed

lemma regex_exec_at_match:
  "matchhere re s s None = Some x \<Longrightarrow> regex_exec re s = Some x"
  by (cases s) auto

lemma regex_exec_leftmost:
  assumes "matchhere re v v None \<noteq> None"
  shows "\<exists>u1 u2 x. u = u1 @ u2 \<and> regex_exec re (u @ v) = Some x \<and>
           matchhere re (u2 @ v) (u2 @ v) None = Some x"
proof (induction u)
  case Nil
  from assms obtain x where "matchhere re v v None = Some x" by auto
  with regex_exec_at_match [OF this] show ?case by simp
next
  case (Cons a u)
  show ?case
  proof (cases "matchhere re (a # u @ v) (a # u @ v) None")
    case None
    from Cons obtain u1 u2 x where "u = u1 @ u2" "regex_exec re (u @ v) = Some x"
      "matchhere re (u2 @ v) (u2 @ v) None = Some x" by blast
    with None have "a # u = (a # u1) @ u2 \<and> regex_exec re ((a # u) @ v) = Some x \<and>
        matchhere re (u2 @ v) (u2 @ v) None = Some x"
      by simp
    then show ?thesis by blast
  next
    case (Some x)
    then have "a # u = [] @ (a # u) \<and> regex_exec re ((a # u) @ v) = Some x \<and>
        matchhere re ((a # u) @ v) ((a # u) @ v) None = Some x"
      by simp
    then show ?thesis by blast
  qed
qed

section \<open>Discovery\<close>

text \<open>The definitions to unfold when a scan is evaluated on a given text.\<close>

lemmas scan_defs = js_def is_space_def is_word_def is_type_char_def funcRegex_def is_any_def
  is_dot_def is_line_terminator_def blockCommentRegex_def lineCommentRegex_def
  contentWithoutComments_def

lemma foundFunctions_decl_split:
  assumes "exported_decl_shape ws1 ty ws2 name ws3"
  shows "\<exists>before. foundFunctions (pre @ exported_decl ws1 ty ws2 name ws3 @ post) =
           before @ name # foundFunctions post"
proof (induction "length pre" arbitrary: pre rule: less_induct)
  case less
  let ?d = "exported_decl ws1 ty ws2 name ws3"
  have "matchhere funcRegex (?d @ post) (?d @ post) None \<noteq> None"
    using matchhere_exported_decl [OF assms] by simp
  from regex_exec_leftmost [OF this, of pre] obtain u1 u2 m rest where
    u: "pre = u1 @ u2" and e: "regex_exec funcRegex (pre @ ?d @ post) = Some (m, rest)"
    and h: "matchhere funcRegex (u2 @ ?d @ post) (u2 @ ?d @ post) None = Some (m, rest)"
    by (metis surj_pair)
  from e have f: "foundFunctions (pre @ ?d @ post) =
      (case m of None \<Rightarrow> [] | Some f \<Rightarrow> f) # foundFunctions rest"
    by (subst foundFunctions.simps) simp
  from funcRegex_match_at_decl [OF assms matchhere_in_all_matches [OF h]]
  show ?case
  proof (elim disjE exE conjE)
    fix pre'
    assume p: "length pre' < length u2" "rest = pre' @ ?d @ post"
    with u have "length pre' < length pre" by simp
    from less [OF this] obtain before where
      "foundFunctions (pre' @ ?d @ post) = before @ name # foundFunctions post" by blast
    with f p(2) have "foundFunctions (pre @ ?d @ post) =
        ((case m of None \<Rightarrow> [] | Some f \<Rightarrow> f) # before) @ name # foundFunctions post"
      by simp
    then show ?thesis by blast
  next
    assume "m = Some name" "rest = post"
    with f have "foundFunctions (pre @ ?d @ post) = [] @ name # foundFunctions post" by simp
    then show ?thesis by blast
  qed
qed




lemma count_list_filter:
  "count_list (filter P xs) x = (if P x then count_list xs x else 0)"
  by (induction xs) auto

lemma manual_names_kept: "f \<in> set manualCFunctions \<Longrightarrow> keepFunction f"
  by (auto simp: manualCFunctions_def keepFunction_def excludedNames_def js_def)

lemma count_list_pos: "x \<in> set xs \<Longrightarrow> 1 \<le> count_list xs x"
  using count_list_0_iff [of xs x] by (cases "count_list xs x") auto

text \<open>
  C7, as the code has it. The scan removes no duplicates: two declarations of one name
  are both captured, in the order of the text. In the discovered part of the export list
  the name is then twice at least when the filter keeps it, and not at all when the filter
  drops it (a name that contains \<^verbatim>\<open>_reserved\<close> or is in the exclusion set). The export
  list counts a name once for each time it is in the manual list and, when the filter
  keeps it, once for each time it was found; so a name of the manual list that is also
  found is there twice at least.
\<close>

theorem no_deduplication:
  assumes "exported_decl_shape ws1 ty ws2 name ws3"
    and "exported_decl_shape ws1' ty' ws2' name ws3'"
  shows "(\<exists>b1 b2. foundFunctions (pre @ exported_decl ws1 ty ws2 name ws3 @ mid @
              exported_decl ws1' ty' ws2' name ws3' @ post) =
            b1 @ name # b2 @ name # foundFunctions post) \<and>
         (keepFunction name \<longrightarrow>
            2 \<le> count_list (drop (length manualCFunctions) (exportedFunctions
              (foundFunctions (pre @ exported_decl ws1 ty ws2 name ws3 @ mid @
                exported_decl ws1' ty' ws2' name ws3' @ post)))) name) \<and>
         (\<not> keepFunction name \<longrightarrow>
            count_list (drop (length manualCFunctions) (exportedFunctions
              (foundFunctions (pre @ exported_decl ws1 ty ws2 name ws3 @ mid @
                exported_decl ws1' ty' ws2' name ws3' @ post)))) name = 0) \<and>
         count_list (exportedFunctions found) f =
           count_list manualCFunctions f + (if keepFunction f then count_list found f else 0) \<and>
         (f \<in> set manualCFunctions \<and> f \<in> set found \<longrightarrow> 2 \<le> count_list (exportedFunctions found) f)"
proof -
  let ?d = "exported_decl ws1 ty ws2 name ws3" and ?d' = "exported_decl ws1' ty' ws2' name ws3'"
  from foundFunctions_decl_split [OF assms(1), of pre "mid @ ?d' @ post"] obtain b1 where
    b1: "foundFunctions (pre @ ?d @ mid @ ?d' @ post) = b1 @ name # foundFunctions (mid @ ?d' @ post)"
    by blast
  from foundFunctions_decl_split [OF assms(2), of mid post] obtain b2 where
    b2: "foundFunctions (mid @ ?d' @ post) = b2 @ name # foundFunctions post"
    by blast
  have twice: "foundFunctions (pre @ ?d @ mid @ ?d' @ post) = b1 @ name # b2 @ name # foundFunctions post"
    using b1 b2 by simp
  have c: "count_list (exportedFunctions xs) x =
      count_list manualCFunctions x + (if keepFunction x then count_list xs x else 0)" for xs x
    by (simp add: exportedFunctions_def count_list_filter)
  have "2 \<le> count_list (drop (length manualCFunctions) (exportedFunctions
      (foundFunctions (pre @ ?d @ mid @ ?d' @ post)))) name" if "keepFunction name"
    using that unfolding twice by (simp add: exportedFunctions_def count_list_filter)
  moreover have "count_list (drop (length manualCFunctions) (exportedFunctions
      (foundFunctions (pre @ ?d @ mid @ ?d' @ post)))) name = 0" if "\<not> keepFunction name"
    using that by (simp add: exportedFunctions_def count_list_filter)
  moreover have "2 \<le> count_list (exportedFunctions found) f"
    if "f \<in> set manualCFunctions" "f \<in> set found"
    using count_list_pos [OF that(1)] count_list_pos [OF that(2)] manual_names_kept [OF that(1)]
    unfolding c by simp
  ultimately show ?thesis
    using twice c by blast
qed

theorem no_deduplication_witness:
  "exported_decl_shape (js '' '') (js ''int'') (js '' '') (js ''qpdf_init'') [] \<and>
   [] @ exported_decl (js '' '') (js ''int'') (js '' '') (js ''qpdf_init'') [] @ js ''void);\<newline>'' @
     exported_decl (js '' '') (js ''int'') (js '' '') (js ''qpdf_init'') [] @ js ''void);''
     = js ''QPDF_DLL int qpdf_init(void);\<newline>QPDF_DLL int qpdf_init(void);'' \<and>
   keepFunction (js ''qpdf_init'') \<and>
   2 \<le> count_list (drop (length manualCFunctions) (exportedFunctions (foundFunctions
     (js ''QPDF_DLL int qpdf_init(void);\<newline>QPDF_DLL int qpdf_init(void);'')))) (js ''qpdf_init'') \<and>
   js ''qpdf_write_begin'' \<in> set manualCFunctions \<and>
   js ''qpdf_write_begin'' \<in> set [js ''qpdf_write_begin''] \<and>
   2 \<le> count_list (exportedFunctions [js ''qpdf_write_begin'']) (js ''qpdf_write_begin'') \<and>
   exported_decl_shape (js '' '') (js ''int'') (js '' '') (js ''qpdf_x_reserved'') [] \<and>
   \<not> keepFunction (js ''qpdf_x_reserved'') \<and>
   count_list (drop (length manualCFunctions) (exportedFunctions (foundFunctions
     (exported_decl (js '' '') (js ''int'') (js '' '') (js ''qpdf_x_reserved'') [] @
      exported_decl (js '' '') (js ''int'') (js '' '') (js ''qpdf_x_reserved'') [])))) (js ''qpdf_x_reserved'') = 0"
proof -
  have s: "exported_decl_shape (js '' '') (js ''int'') (js '' '') (js ''qpdf_init'') []"
    by (simp add: exported_decl_shape_def js_def is_space_def is_word_def is_type_char_def)
  have d: "[] @ exported_decl (js '' '') (js ''int'') (js '' '') (js ''qpdf_init'') [] @ js ''void);\<newline>'' @
     exported_decl (js '' '') (js ''int'') (js '' '') (js ''qpdf_init'') [] @ js ''void);''
     = js ''QPDF_DLL int qpdf_init(void);\<newline>QPDF_DLL int qpdf_init(void);''"
    by (simp add: exported_decl_def js_def)
  have k: "keepFunction (js ''qpdf_init'')"
    by (simp add: keepFunction_def excludedNames_def js_def)
  have m: "js ''qpdf_write_begin'' \<in> set manualCFunctions"
    by (simp add: manualCFunctions_def)
  have s': "exported_decl_shape (js '' '') (js ''int'') (js '' '') (js ''qpdf_x_reserved'') []"
    by (simp add: exported_decl_shape_def js_def is_space_def is_word_def is_type_char_def)
  have k': "\<not> keepFunction (js ''qpdf_x_reserved'')"
    by (simp add: keepFunction_def excludedNames_def js_def)
  have a: "2 \<le> count_list (drop (length manualCFunctions) (exportedFunctions (foundFunctions
       (js ''QPDF_DLL int qpdf_init(void);\<newline>QPDF_DLL int qpdf_init(void);'')))) (js ''qpdf_init'')"
    and b: "2 \<le> count_list (exportedFunctions [js ''qpdf_write_begin'']) (js ''qpdf_write_begin'')"
    using no_deduplication [OF s s, of "[]" "js ''void);\<newline>''" "js ''void);''"
      "[js ''qpdf_write_begin'']" "js ''qpdf_write_begin''"] k m
    unfolding d by simp_all
  have c: "count_list (drop (length manualCFunctions) (exportedFunctions (foundFunctions
     (exported_decl (js '' '') (js ''int'') (js '' '') (js ''qpdf_x_reserved'') [] @
      exported_decl (js '' '') (js ''int'') (js '' '') (js ''qpdf_x_reserved'') [])))) (js ''qpdf_x_reserved'') = 0"
    using no_deduplication [OF s' s', of "[]" "[]" "[]" "[]" "[]"] k'
    by simp
  have i: "js ''qpdf_write_begin'' \<in> set [js ''qpdf_write_begin'']"
    by simp
  from s d k m i a b s' k' c show ?thesis
    by blast
qed

text \<open>
  C7, as the claim states it, fails. \<^verbatim>\<open>qpdf_c_wrap\<close> is declared twice and captured
  twice, and is not in the discovered part of the export list at all: the filter drops
  both.
\<close>

theorem excluded_duplicate_not_exported:
  "foundFunctions (js ''QPDF_DLL int qpdf_c_wrap(void);\<newline>QPDF_DLL int qpdf_c_wrap(void);'')
     = [js ''qpdf_c_wrap'', js ''qpdf_c_wrap''] \<and>
   count_list (drop (length manualCFunctions) (exportedFunctions (foundFunctions
     (js ''QPDF_DLL int qpdf_c_wrap(void);\<newline>QPDF_DLL int qpdf_c_wrap(void);''))))
     (js ''qpdf_c_wrap'') = 0"
proof -
  have f: "foundFunctions (js ''QPDF_DLL int qpdf_c_wrap(void);\<newline>QPDF_DLL int qpdf_c_wrap(void);'')
     = [js ''qpdf_c_wrap'', js ''qpdf_c_wrap'']"
    by (simp add: foundFunctions.simps scan_defs)
  show ?thesis
    unfolding f
    by (simp add: exportedFunctions_def keepFunction_def excludedNames_def manualCFunctions_def js_def)
qed

text \<open>
  C5. The code does not do what the claim says, nor what its own comments say
  (\<^verbatim>\<open>Strip comments (C-style /* ... */ and C++-style // ...)\<close>). The block pass runs over
  the whole text first and takes a \<^verbatim>\<open>/*\<close> inside a line comment for the start of a block
  comment. The first header is one line comment: it starts with \<^verbatim>\<open>//\<close> and has no line
  terminator. The block pass removes \<^verbatim>\<open>/* a */\<close>, one slash is left, the line is no line
  comment any more and the declaration in it is discovered. In the second header the
  first line is a line comment and the block comment opens on the second line, at
  \<^verbatim>\<open>/*\<close> after the asterisk, and holds the declaration. The block pass pairs the
  \<^verbatim>\<open>/*\<close> of the first line with the \<^verbatim>\<open>*/\<close> of the second, the line pass removes the
  rest of the first line, and the declaration is discovered.
\<close>

theorem declaration_in_comment_discovered:
  "prefix (js ''//'') (js ''//* a */ QPDF_DLL int qpdf_a(void);'') \<and>
   \<not> list_ex is_line_terminator (js ''//* a */ QPDF_DLL int qpdf_a(void);'') \<and>
   contentWithoutComments (js ''//* a */ QPDF_DLL int qpdf_a(void);'') =
     js ''/ QPDF_DLL int qpdf_a(void);'' \<and>
   discovered (js ''//* a */ QPDF_DLL int qpdf_a(void);'') = [js ''qpdf_a''] \<and>
   contentWithoutComments (js ''// /* x\<newline>*/*\<newline> QPDF_DLL int qpdf_h(void); */'') =
     js ''\<newline> QPDF_DLL int qpdf_h(void); */'' \<and>
   discovered (js ''// /* x\<newline>*/*\<newline> QPDF_DLL int qpdf_h(void); */'') = [js ''qpdf_h'']"
  by (simp add: discovered_def foundFunctions.simps scan_defs)

section \<open>The artifacts\<close>

lemma quoted_scan_skip: "34 \<notin> set a \<Longrightarrow> quoted_scan None (a @ rest) = quoted_scan None rest"
  by (induction a) auto

lemma quoted_scan_inside:
  "34 \<notin> set f \<Longrightarrow> quoted_scan (Some acc) (f @ 34 # rest) = (acc @ f) # quoted_scan None rest"
  by (induction f arbitrary: acc) auto

lemma quoted_scan_item:
  assumes "34 \<notin> set a" and "34 \<notin> set f"
  shows "quoted_scan None (a @ dquote @ f @ dquote @ rest) = f # quoted_scan None rest"
proof -
  have "quoted_scan None (a @ dquote @ f @ dquote @ rest) = quoted_scan None (34 # f @ 34 # rest)"
    using quoted_scan_skip [OF assms(1)] by (simp add: dquote_def)
  also have "\<dots> = f # quoted_scan None rest"
    using quoted_scan_inside [OF assms(2), of "[]" rest] by simp
  finally show ?thesis .
qed

lemma js_join_Cons:
  "js_join sep (x # xs) = (if xs = [] then x else x @ sep @ js_join sep xs)"
  by (cases xs) auto

lemma quoted_scan_join:
  assumes "34 \<notin> set sep" and "34 \<notin> set a" and "34 \<notin> set z" and "\<forall>f \<in> set xs. 34 \<notin> set (h f)"
  shows "quoted_scan None (js_join sep (map (\<lambda>f. a @ dquote @ h f @ dquote) xs) @ z) = map h xs"
  using assms(4)
proof (induction xs)
  case Nil
  with assms(3) show ?case
    using quoted_scan_skip [of z "[]"] by simp
next
  case (Cons x xs)
  show ?case
  proof (cases "xs = []")
    case True
    have "quoted_scan None (a @ dquote @ h x @ dquote @ z) = h x # quoted_scan None z"
      using assms(2) Cons.prems by (intro quoted_scan_item) auto
    moreover have "quoted_scan None z = []"
      using quoted_scan_skip [OF assms(3), of "[]"] by simp
    ultimately show ?thesis
      using True by simp
  next
    case False
    let ?r = "js_join sep (map (\<lambda>f. a @ dquote @ h f @ dquote) xs) @ z"
    have "quoted_scan None (a @ dquote @ h x @ dquote @ sep @ ?r) = h x # quoted_scan None (sep @ ?r)"
      using assms(2) Cons.prems by (intro quoted_scan_item) auto
    also have "quoted_scan None (sep @ ?r) = quoted_scan None ?r"
      using assms(1) by (rule quoted_scan_skip)
    also have "\<dots> = map h xs"
      using Cons by simp
    finally show ?thesis
      using False by (simp add: js_join_Cons)
  qed
qed

lemma before_first_char:
  "x \<notin> set a \<Longrightarrow> before_first [x] (a @ x # rest) = a"
  by (induction a) auto

lemma notin_js_join:
  "x \<notin> set sep \<Longrightarrow> \<forall>y \<in> set xs. x \<notin> set y \<Longrightarrow> x \<notin> set (js_join sep xs)"
  by (induction sep xs rule: js_join.induct) auto

lemma regex_exec_Some:
  "regex_exec re s = Some x \<Longrightarrow> \<exists>v. matchhere re v v None = Some x"
  by (induction s) (auto split: option.splits)

lemma foundFunctions_word:
  "f \<in> set (foundFunctions s) \<Longrightarrow> list_all is_word f"
proof (induction s rule: foundFunctions.induct)
  case (1 s)
  show ?case
  proof (cases "regex_exec funcRegex s")
    case None
    with "1.prems" show ?thesis
      by (subst (asm) foundFunctions.simps) simp
  next
    case (Some x)
    obtain m rest where x: "x = (m, rest)" by (cases x)
    from regex_exec_Some [OF Some] obtain v where "matchhere funcRegex v v None = Some (m, rest)"
      unfolding x by blast
    from matchhere_in_all_matches [OF this] obtain w where
      w: "m = Some (js ''qpdf_'' @ w)" "\<forall>x \<in> set w. is_word x"
      unfolding funcRegex_all_matches by blast
    from "1.prems" Some x have "f = js ''qpdf_'' @ w \<or> f \<in> set (foundFunctions rest)"
      by (subst (asm) foundFunctions.simps) (auto simp: w(1))
    then show ?thesis
    proof
      assume "f = js ''qpdf_'' @ w"
      with w(2) js_literals(4) show ?thesis by (auto simp: list_all_iff)
    next
      assume "f \<in> set (foundFunctions rest)"
      with "1.IH" Some x show ?thesis by simp
    qed
  qed
qed

lemma exported_word:
  assumes "f \<in> set (exportedFunctions (foundFunctions s))"
  shows "list_all is_word f"
proof -
  from assms have "f \<in> set manualCFunctions \<or> f \<in> set (foundFunctions s)"
    by (auto simp: exportedFunctions_def)
  then show ?thesis
  proof
    assume "f \<in> set manualCFunctions"
    then show ?thesis
      by (auto simp: manualCFunctions_def js_def is_word_def)
  next
    assume "f \<in> set (foundFunctions s)"
    then show ?thesis by (rule foundFunctions_word)
  qed
qed

lemma word_no_quote: "list_all is_word f \<Longrightarrow> 34 \<notin> set f \<and> 93 \<notin> set f"
  by (auto simp: list_all_iff is_word_def)

lemma functionsContent_items:
  assumes "\<forall>f \<in> set E. 34 \<notin> set f"
  shows "quoted_items (functionsContent E) = map (\<lambda>f. js ''_'' @ f) E"
proof -
  have "quoted_scan None (js ''['' @ (js_join (js '','')
      (map (\<lambda>f. [] @ dquote @ (js ''_'' @ f) @ dquote) E) @ js '']'')) =
    quoted_scan None (js_join (js '','') (map (\<lambda>f. [] @ dquote @ (js ''_'' @ f) @ dquote) E) @ js '']'')"
    by (rule quoted_scan_skip) (simp add: js_def)
  also have "\<dots> = map (\<lambda>f. js ''_'' @ f) E"
    using assms by (intro quoted_scan_join) (auto simp: js_def)
  finally show ?thesis
    by (simp add: quoted_items_def functionsContent_def)
qed

lemma ts_after_marker:
  "after_first (js ''export const allExportedFunctions = ['') (tsContent E) =
     newline @ js_join (js '','' @ newline) (map (\<lambda>f. js ''  '' @ dquote @ f @ dquote) E) @ newline @
     js ''] as const;'' @ newline @
     newline @
     js ''export const allRuntimeMethods = ['' @ newline @
     js_join (js '','' @ newline) (map (\<lambda>m. js ''  '' @ dquote @ m @ dquote) runtimeMethods) @ newline @
     js ''] as const;'' @ newline"
  by (simp add: tsContent_def js_def newline_def dquote_def)

lemma ts_export_constant_tsContent:
  assumes "\<forall>f \<in> set E. 93 \<notin> set f"
  shows "ts_export_constant (tsContent E) =
     newline @ js_join (js '','' @ newline) (map (\<lambda>f. js ''  '' @ dquote @ f @ dquote) E) @ newline"
proof -
  let ?j = "js_join (js '','' @ newline) (map (\<lambda>f. js ''  '' @ dquote @ f @ dquote) E)"
  have "93 \<notin> set ?j"
    using assms by (intro notin_js_join) (auto simp: js_def newline_def dquote_def)
  then have "93 \<notin> set (newline @ ?j @ newline)"
    by (simp add: newline_def)
  from before_first_char [OF this] show ?thesis
    unfolding ts_export_constant_def ts_after_marker
    by (simp add: js_def)
qed

lemma ts_items:
  assumes "\<forall>f \<in> set E. 34 \<notin> set f \<and> 93 \<notin> set f"
  shows "quoted_items (ts_export_constant (tsContent E)) = E"
proof -
  have "quoted_scan None (newline @ (js_join (js '','' @ newline)
      (map (\<lambda>f. js ''  '' @ dquote @ f @ dquote) E) @ newline)) =
    quoted_scan None (js_join (js '','' @ newline)
      (map (\<lambda>f. js ''  '' @ dquote @ f @ dquote) E) @ newline)"
    by (rule quoted_scan_skip) (simp add: newline_def)
  also have "\<dots> = map (\<lambda>f. f) E"
    using assms by (intro quoted_scan_join) (auto simp: js_def newline_def)
  finally show ?thesis
    using assms by (simp add: quoted_items_def ts_export_constant_tsContent)
qed

text \<open>
  C8. In every run that ends with status 0, the identifiers of \<^verbatim>\<open>exported-functions.txt\<close>
  are, in the same order, the identifiers of the export constant of \<^verbatim>\<open>runtime-methods.ts\<close>,
  each with \<^verbatim>\<open>_\<close> in front; so the two sets agree up to that prefix.
\<close>

theorem export_list_matches_typed_mirror:
  assumes "file_text w (headerPath w) = Some h" and "snd (run w) = Exit 0"
  shows "quoted_items (map snd (written (fst (run w))) ! 0) =
           map (\<lambda>f. js ''_'' @ f)
             (quoted_items (ts_export_constant (map snd (written (fst (run w))) ! 3))) \<and>
         set (quoted_items (map snd (written (fst (run w))) ! 0)) =
           (\<lambda>f. js ''_'' @ f) `
             set (quoted_items (ts_export_constant (map snd (written (fst (run w))) ! 3)))"
proof -
  let ?E = "exportedFunctions (discovered h)"
  have q: "\<forall>f \<in> set ?E. 34 \<notin> set f \<and> 93 \<notin> set f"
    using exported_word word_no_quote unfolding discovered_def by blast
  have "quoted_items (functionsContent ?E) = map (\<lambda>f. js ''_'' @ f) (quoted_items (ts_export_constant (tsContent ?E)))"
    using q by (simp add: functionsContent_items ts_items)
  then have "quoted_items (map snd (written (fst (run w))) ! 0) =
      map (\<lambda>f. js ''_'' @ f) (quoted_items (ts_export_constant (map snd (written (fst (run w))) ! 3)))"
    unfolding run_exit0_contents [OF assms] by simp
  then show ?thesis
    by (metis list.set_map)
qed

theorem export_list_matches_typed_mirror_witness:
  "file_text world_ok (headerPath world_ok) = Some example_header \<and>
   snd (run world_ok) = Exit 0 \<and>
   quoted_items (map snd (written (fst (run world_ok))) ! 0) =
     map (\<lambda>f. js ''_'' @ f)
       (quoted_items (ts_export_constant (map snd (written (fst (run world_ok))) ! 3))) \<and>
   set (quoted_items (map snd (written (fst (run world_ok))) ! 0)) =
     (\<lambda>f. js ''_'' @ f) `
       set (quoted_items (ts_export_constant (map snd (written (fst (run world_ok))) ! 3)))"
  using export_list_matches_typed_mirror [OF world_ok_reads(2) world_ok_exit]
    world_ok_reads(2) world_ok_exit
  by blast

end
